theory Spec2Isabelle
  imports Main "HOL-Library.Word" "HOL-Library.Signed_Division"
begin

section \<open>The generators of \<^verbatim>\<open>c_util_generator.py\<close>\<close>

subsection \<open>Calls on the emitter\<close>

text \<open>
  Every generator receives the emitter \<^verbatim>\<open>cg\<close> and does nothing with it but call its
  four methods, never reading anything back. A generator is therefore modelled by the
  sequence of method calls it issues, in program order. \<^verbatim>\<open>cg.write(line)\<close> is
  \<open>Write line\<close>, and \<^verbatim>\<open>cg.write(line, endl=e)\<close> is \<open>Write_endl line e\<close>.
\<close>

datatype cg_call =
    Start_c_block string
  | Close_c_block
  | Write string
  | Write_endl string string
  | Blankline

text \<open>The Python loop \<^verbatim>\<open>for x in xs: <calls on cg>\<close>.\<close>

definition for_each :: "'a list \<Rightarrow> ('a \<Rightarrow> cg_call list) \<Rightarrow> cg_call list" where
  "for_each xs body = concat (map body xs)"

subsection \<open>Python string operations\<close>

text \<open>
  The two characters that the Python literals spell \<^verbatim>\<open>\\n\<close>, a backslash and the
  letter n: the emitted C string literal ends in a newline escape.
\<close>

definition esc_n :: string where
  "esc_n = [CHR 0x5C, CHR ''n'']"

text \<open>\<^verbatim>\<open>"%d" % i\<close> for a Python integer: its decimal digits, with a minus sign if negative.\<close>

fun digits :: "nat \<Rightarrow> string" where
  "digits n =
     (if n < 10 then [char_of (48 + n)] else digits (n div 10) @ [char_of (48 + n mod 10)])"

declare digits.simps [simp del]

definition fmt_d :: "int \<Rightarrow> string" where
  "fmt_d i = (if i < 0 then CHR ''-'' # digits (nat (- i)) else digits (nat i))"

text \<open>\<^verbatim>\<open>str.upper()\<close> on the characters \<open>char\<close> has: the ASCII letters are the cased ones.\<close>

definition upper_char :: "char \<Rightarrow> char" where
  "upper_char c =
     (let k = (of_char c :: nat) in if 97 \<le> k \<and> k \<le> 122 then char_of (k - 32) else c)"

definition upper :: "string \<Rightarrow> string" where
  "upper s = map upper_char s"

subsection \<open>\<^verbatim>\<open>pybind11_func\<close>\<close>

text \<open>
  \<^verbatim>\<open>utility.get_deriv_indices\<close> is not part of this module; it is a parameter of the
  model, as is the type of \<^verbatim>\<open>grad\<close>, which is only handed on to it.
\<close>

definition pybind11_func ::
  "('g \<Rightarrow> string list) \<Rightarrow> string \<Rightarrow> 'g \<Rightarrow> string \<Rightarrow> int \<Rightarrow> cg_call list" where
  \<open>pybind11_func get_deriv_indices name grad call_name max_L =
    (let deriv_indices = get_deriv_indices grad;
         sig = ''void '' @ name @ ''(int L, py::array_t<double> arr_xyz, py::array_t<double> arr_coeffs,\<newline>py::array_t<double> arr_exponents, py::array_t<double> arr_center, bool spherical,\<newline>py::array_t<double> arr_out'';
         sig = fold (\<lambda>cart sig. sig @ '', py::array_t<double> arr_'' @ cart @ ''_out'')
                 deriv_indices sig;
         sig = sig @ '')'';
         call_func = call_name @ ''(L, xyz.shape(1)'';
         call_func = call_func @ '', xyz.data(0, 0), xyz.data(1, 0), xyz.data(2, 0)'';
         call_func = call_func @ '', coeffs.shape(0), coeffs.data(0), exponents.data(0)'';
         call_func = call_func @ '', center.data(0)'';
         call_func = call_func @ '', spherical'';
         call_func = call_func @ '', out.mutable_data(0, 0)'';
         call_func = fold (\<lambda>cart call_func. call_func @ '', out_'' @ cart @ ''.mutable_data(0, 0)'')
                       deriv_indices call_func;
         call_func = call_func @ '')''
     in
       [Start_c_block sig,
        Blankline,
        Write ''// Grab array pointers'',
        Write ''auto xyz = arr_xyz.unchecked<2>()'',
        Write ''auto coeffs = arr_coeffs.unchecked<1>()'',
        Write ''auto exponents = arr_exponents.unchecked<1>()'',
        Write ''auto center = arr_center.unchecked<1>()'',
        Write ''auto out = arr_out.mutable_unchecked<2>()'']
       @ for_each deriv_indices (\<lambda>cart.
           [Write (''auto out_'' @ cart @ '' = arr_'' @ cart @ ''_out.mutable_unchecked<2>()'')])
       @ [Blankline,
        Write ''// XYZ is of size 3'',
        Start_c_block (''if (L > '' @ fmt_d max_L @ '')''),
        Write (''    throw std::invalid_argument("Exceeded compiled angular momentum of ''
               @ fmt_d max_L
               @ ''. Please recompile with a higher angular momentum.'' @ esc_n @ ''")''),
        Close_c_block,
        Write ''// XYZ is of size 3'',
        Start_c_block ''if (arr_xyz.shape(0) != 3)'',
        Write (''    throw std::length_error("Length of XYZ array must be (3, n).'' @ esc_n @ ''")''),
        Close_c_block,
        Blankline,
        Write ''// Coeff matches exponent shape'',
        Start_c_block ''if (coeffs.shape(0) != exponents.shape(0))'',
        Write (''    throw std::length_error("Length of coefficients and exponents must match.''
               @ esc_n @ ''")''),
        Close_c_block,
        Blankline,
        Write ''// Center is of size 3'',
        Start_c_block ''if (center.shape(0) != 3)'',
        Write (''    throw std::length_error("Length of center vector must be 3 (X, Y, Z).''
               @ esc_n @ ''")''),
        Close_c_block,
        Blankline,
        Write ''// Make sure output length matches'',
        Write ''size_t nsize'',
        Start_c_block ''if (spherical)'',
        Write ''    nsize = 2 * L + 1'',
        Write_endl ''} else {'' [],
        Write ''    nsize = ((L + 2) * (L + 1)) / 2'',
        Close_c_block,
        Blankline,
        Start_c_block ''if (out.shape(0) != nsize)'',
        Write (''    throw std::length_error("Size of the output array does not match the angular momentum.''
               @ esc_n @ ''")''),
        Close_c_block]
       @ for_each deriv_indices (\<lambda>cart.
           [Start_c_block (''if (out_'' @ cart @ ''.shape(0) != nsize)''),
            Write (''    throw std::length_error("Size of the output '' @ upper cart
                   @ '' array does not match the angular momentum.'' @ esc_n @ ''")''),
            Close_c_block])
       @ [Blankline,
        Write ''// Ensure lengths match'',
        Start_c_block ''if (out.shape(1) != arr_xyz.shape(1))'',
        Write (''    throw std::length_error("Size of the output array and XYZ array must be the same.''
               @ esc_n @ ''")''),
        Close_c_block]
       @ for_each deriv_indices (\<lambda>cart.
           [Start_c_block (''if (out_'' @ cart @ ''.shape(1) != arr_xyz.shape(1))''),
            Write (''    throw std::length_error("Size of the output '' @ upper cart
                   @ '' array and XYZ array must be the same.'' @ esc_n @ ''")''),
            Close_c_block])
       @ [Blankline,
        Write ''// Call the GG helper function'',
        Write call_func,
        Close_c_block])\<close>

subsection \<open>\<^verbatim>\<open>pybind11_transpose\<close>\<close>

definition pybind11_transpose :: "string \<Rightarrow> string \<Rightarrow> cg_call list" where
  \<open>pybind11_transpose func_name wrapper_name =
    (let sig = ''void '' @ wrapper_name @ ''(py::array_t<double> arr_input'';
         sig = sig @ '', py::array_t<double> arr_output)''
     in
       [Start_c_block sig,
        Write ''auto input = arr_input.unchecked<2>()'',
        Write ''auto output = arr_output.mutable_unchecked<2>()'',
        Write ''size_t n = input.shape(0)'',
        Write ''size_t m = input.shape(1)'',
        Blankline,
        Write ''// Check shapes'',
        Start_c_block ''if (input.shape(0) != output.shape(1))'',
        Write (''    throw std::length_error("Input tranpose shape 0 does not match output transpose shape 1.''
               @ esc_n @ ''")''),
        Close_c_block,
        Blankline,
        Start_c_block ''if (input.shape(1) != output.shape(0))'',
        Write (''    throw std::length_error("Input tranpose shape 1 does not match output transpose shape 0.''
               @ esc_n @ ''")''),
        Close_c_block,
        Blankline,
        Write (func_name @ ''(n, m, input.data(0, 0), output.mutable_data(0, 0))''),
        Close_c_block])\<close>

subsection \<open>\<^verbatim>\<open>naive_transpose\<close>, \<^verbatim>\<open>fast_transpose\<close> and \<^verbatim>\<open>block_copy\<close>\<close>

text \<open>These three return the signature they emitted: the model pairs it with the calls.\<close>

definition naive_transpose :: "cg_call list \<times> string" where
  "naive_transpose =
    (let sig = ''void gg_naive_transpose(size_t n, size_t m, const double* __restrict__ input, double* __restrict__ output)''
     in
       ([Start_c_block sig,
         Start_c_block ''for (size_t i = 0; i < n; i++)'',
         Start_c_block ''for (size_t j = 0; j < m; j++)'',
         Write ''output[j * n + i] = input[i * m + j]'',
         Close_c_block,
         Close_c_block,
         Close_c_block], sig))"

definition fast_transpose :: "int \<Rightarrow> cg_call list \<times> string" where
  "fast_transpose inner_block =
    (let sig = ''void gg_fast_transpose(size_t n, size_t m, const double* __restrict__ input, double* __restrict__ output)''
     in
       ([Start_c_block sig,
         Blankline,
         Write ''// Temps'',
         Write (''double tmp['' @ fmt_d (inner_block * inner_block) @ '']  __attribute__((aligned(64)))''),
         Write ''// Sizing'',
         Write (''size_t nblocks = n / '' @ fmt_d inner_block),
         Write (''nblocks += (n % '' @ fmt_d inner_block @ '') ? 1 : 0''),
         Write (''size_t mblocks = m / '' @ fmt_d inner_block),
         Write (''mblocks += (m % '' @ fmt_d inner_block @ '') ? 1 : 0''),
         Write ''// Outer blocks'',
         Start_c_block ''for (size_t nb = 0; nb < nblocks; nb++)'',
         Write (''const size_t nstart = nb * '' @ fmt_d inner_block),
         Write (''size_t nremain = ((nstart + '' @ fmt_d inner_block @ '') > n) ? (n - nstart) : ''
                @ fmt_d inner_block),
         Start_c_block ''for (size_t mb = 0; mb < mblocks; mb++)'',
         Write (''const size_t mstart = mb * '' @ fmt_d inner_block),
         Write (''size_t mremain = ((mstart + '' @ fmt_d inner_block @ '') > m) ? (m - mstart) : ''
                @ fmt_d inner_block),
         Write ''// Copy data to inner block'',
         Start_c_block ''for (size_t l = 0; l < nremain; l++)'',
         Write ''const size_t start = (nstart + l) * m + mstart'',
         Start_c_block ''for (size_t k = 0; k < mremain; k++)'',
         Write (''tmp[k * '' @ fmt_d inner_block @ '' + l] = input[start + k]''),
         Close_c_block,
         Close_c_block,
         Write ''// Copy data to inner block'',
         Start_c_block ''for (size_t k = 0; k < mremain; k++)'',
         Write ''const size_t start = (mstart + k) * n + nstart'',
         Start_c_block ''for (size_t l = 0; l < nremain; l++)'',
         Write (''output[start + l] = tmp[k * '' @ fmt_d inner_block @ '' + l]''),
         Close_c_block,
         Close_c_block,
         Close_c_block,
         Close_c_block,
         Close_c_block], sig))"

definition block_copy :: "cg_call list \<times> string" where
  "block_copy =
    (let sig = ''void block_copy(size_t n, size_t m, const double* __restrict__ input, size_t is, double* __restrict__ output, size_t os, const int trans)''
     in
       ([Start_c_block sig,
         Blankline,
         Start_c_block ''for (size_t i = 0; i < n; i++)'',
         Write ''const size_t out_shift = i * os'',
         Write ''const size_t inp_shift = i * is'',
         Blankline,
         Start_c_block ''for (size_t j = 0; j < m; j++)'',
         Write ''output[out_shift + j] = input[inp_shift + j]'',
         Close_c_block,
         Close_c_block,
         Close_c_block], sig))"

subsection \<open>Reading a call sequence\<close>

text \<open>The headers of the blocks a generator opens, in order.\<close>

fun block_headers :: "cg_call list \<Rightarrow> string list" where
  "block_headers [] = []"
| "block_headers (Start_c_block h # cs) = h # block_headers cs"
| "block_headers (c # cs) = block_headers cs"

text \<open>The lines a generator writes, in order.\<close>

fun written :: "cg_call list \<Rightarrow> string list" where
  "written [] = []"
| "written (Write l # cs) = l # written cs"
| "written (Write_endl l e # cs) = l # written cs"
| "written (c # cs) = written cs"

text \<open>
  The blocks whose whole body is one written line, in order: each as its header and that
  line. This is the shape of every validation check of the wrappers (an \<^verbatim>\<open>if\<close> header
  and a \<^verbatim>\<open>throw\<close> statement).
\<close>

fun one_line_blocks :: "cg_call list \<Rightarrow> (string \<times> string) list" where
  "one_line_blocks (Start_c_block h # Write l # Close_c_block # cs) = (h, l) # one_line_blocks cs"
| "one_line_blocks (c # cs) = one_line_blocks cs"
| "one_line_blocks [] = []"

text \<open>
  The nesting depth after a call sequence started at depth \<open>d\<close>; \<open>None\<close> if some
  \<^verbatim>\<open>close_c_block\<close> has no block to close.
\<close>

fun nesting :: "cg_call list \<Rightarrow> nat \<Rightarrow> nat option" where
  "nesting [] d = Some d"
| "nesting (Start_c_block h # cs) d = nesting cs (Suc d)"
| "nesting (Close_c_block # cs) d = (case d of 0 \<Rightarrow> None | Suc d' \<Rightarrow> nesting cs d')"
| "nesting (c # cs) d = nesting cs d"

text \<open>\<^verbatim>\<open>sep.join(xs)\<close>.\<close>

fun join :: "string \<Rightarrow> string list \<Rightarrow> string" where
  "join sep [] = []"
| "join sep [x] = x"
| "join sep (x # y # ys) = x @ sep @ join sep (y # ys)"

fun starts_with :: "string \<Rightarrow> string \<Rightarrow> bool" where
  "starts_with [] s = True"
| "starts_with (c # p) [] = False"
| "starts_with (c # p) (d # s) = (c = d \<and> starts_with p s)"

fun contains_str :: "string \<Rightarrow> string \<Rightarrow> bool" where
  "contains_str p [] = starts_with p []"
| "contains_str p (c # s) = (starts_with p (c # s) \<or> contains_str p s)"

definition ends_with :: "string \<Rightarrow> string \<Rightarrow> bool" where
  "ends_with p s = starts_with (rev p) (rev s)"

section \<open>The emitter\<close>

text \<open>
  Modelled from the spec: the class of \<^verbatim>\<open>cg\<close> (the Block Emitter) is not in this
  module. Section 4.1 of the specification gives its contract: an emission context is a
  stack of open block headers and an indentation level; \<^verbatim>\<open>write\<close> appends the line at
  the current indentation; \<^verbatim>\<open>blank_line\<close> appends an empty line;
  \<^verbatim>\<open>open_block\<close> appends the header with an opening brace at the current indentation,
  pushes the header and increments the indentation; \<^verbatim>\<open>close_block\<close> decrements the
  indentation, appends a closing brace at the new depth and pops the stack, and fails
  with UnbalancedBlockError on an empty stack. An emitted line is kept as its
  indentation depth and its text.
\<close>

datatype emit_error = UnbalancedBlockError

record emission_context =
  block_stack :: "string list"
  indentation :: nat
  emitted :: "(nat \<times> string) list"

definition emit_line :: "string \<Rightarrow> emission_context \<Rightarrow> emission_context" where
  "emit_line l ctx = ctx\<lparr>emitted := emitted ctx @ [(indentation ctx, l)]\<rparr>"

fun cg_apply :: "cg_call \<Rightarrow> emission_context \<Rightarrow> emit_error + emission_context" where
  "cg_apply (Write l) ctx = Inr (emit_line l ctx)"
| "cg_apply (Write_endl l e) ctx = Inr (emit_line (l @ e) ctx)"
| "cg_apply Blankline ctx = Inr (ctx\<lparr>emitted := emitted ctx @ [(0, [])]\<rparr>)"
| "cg_apply (Start_c_block h) ctx =
     Inr ((emit_line (h @ '' {'') ctx)
            \<lparr>block_stack := h # block_stack ctx, indentation := Suc (indentation ctx)\<rparr>)"
| "cg_apply Close_c_block ctx =
     (case block_stack ctx of
        [] \<Rightarrow> Inl UnbalancedBlockError
      | h # hs \<Rightarrow>
          Inr (emit_line ''}'' (ctx\<lparr>block_stack := hs, indentation := indentation ctx - 1\<rparr>)))"

fun cg_run :: "cg_call list \<Rightarrow> emission_context \<Rightarrow> emit_error + emission_context" where
  "cg_run [] ctx = Inr ctx"
| "cg_run (c # cs) ctx = (case cg_apply c ctx of Inl e \<Rightarrow> Inl e | Inr ctx' \<Rightarrow> cg_run cs ctx')"

text \<open>What the invariant of the emission context is about: the stack and the level.\<close>

definition nesting_state :: "emit_error + emission_context \<Rightarrow> emit_error + string list \<times> nat" where
  "nesting_state r = map_sum id (\<lambda>ctx. (block_stack ctx, indentation ctx)) r"

section \<open>The emitted wrappers: control skeleton\<close>

text \<open>
  The wrappers emitted by \<^verbatim>\<open>pybind11_func\<close> and \<^verbatim>\<open>pybind11_transpose\<close> are
  straight-line C++ with \<^verbatim>\<open>if\<close> blocks. Their control flow is read off the call
  sequence: given which \<^verbatim>\<open>if\<close> conditions hold at run time, \<open>exec\<close> runs the emitted
  statements in order. A block whose header is not an \<^verbatim>\<open>if\<close> (the function body) is
  entered; an \<^verbatim>\<open>if\<close> block is entered when its condition holds and skipped to its end
  otherwise; the line \<^verbatim>\<open>} else {\<close> switches between the two branches; a comment does
  nothing; a \<^verbatim>\<open>throw\<close> statement ends the run with that statement; every other
  statement is recorded as executed. The counter is the number of blocks still to be
  skipped out of (0 while executing).
\<close>

datatype outcome = Throws string | Returns "string list"

definition is_if :: "string \<Rightarrow> bool" where
  "is_if h = starts_with ''if ('' h"

text \<open>The condition of the header \<^verbatim>\<open>if (cond)\<close>.\<close>

definition cond_of :: "string \<Rightarrow> string" where
  "cond_of h = butlast (drop 4 h)"

definition is_comment :: "string \<Rightarrow> bool" where
  "is_comment l = starts_with ''//'' l"

definition is_throw :: "string \<Rightarrow> bool" where
  "is_throw l = starts_with ''throw '' (dropWhile (\<lambda>c. c = CHR '' '') l)"

definition is_else :: "string \<Rightarrow> bool" where
  "is_else l = (l = ''} else {'')"

fun exec :: "(string \<Rightarrow> bool) \<Rightarrow> cg_call list \<Rightarrow> nat \<Rightarrow> string list \<Rightarrow> outcome" where
  "exec holds [] skip trace = Returns trace"
| "exec holds (Blankline # cs) skip trace = exec holds cs skip trace"
| "exec holds (Start_c_block h # cs) skip trace =
     (if 0 < skip then exec holds cs (Suc skip) trace
      else if is_if h \<and> \<not> holds (cond_of h) then exec holds cs 1 trace
      else exec holds cs 0 trace)"
| "exec holds (Close_c_block # cs) skip trace = exec holds cs (skip - 1) trace"
| "exec holds (Write_endl l e # cs) skip trace =
     (if is_else (l @ e) then
        (if skip = 0 then exec holds cs 1 trace
         else if skip = 1 then exec holds cs 0 trace
         else exec holds cs skip trace)
      else if 0 < skip \<or> is_comment l then exec holds cs skip trace
      else if is_throw l then Throws l
      else exec holds cs skip (trace @ [l]))"
| "exec holds (Write l # cs) skip trace =
     (if 0 < skip \<or> is_comment l then exec holds cs skip trace
      else if is_throw l then Throws l
      else exec holds cs skip (trace @ [l]))"

text \<open>
  The C identifiers: what a function name handed to a wrapper generator is made of.
\<close>

definition ident_char :: "char \<Rightarrow> bool" where
  "ident_char c =
     (let k = (of_char c :: nat)
      in (48 \<le> k \<and> k \<le> 57) \<or> (65 \<le> k \<and> k \<le> 90) \<or> (97 \<le> k \<and> k \<le> 122) \<or> k = 95)"

definition c_identifier :: "string \<Rightarrow> bool" where
  "c_identifier s = (s \<noteq> [] \<and> list_all ident_char s)"

text \<open>
  The expected row count computed by the wrapper of \<^verbatim>\<open>pybind11_func\<close>:
  \<^verbatim>\<open>
  size_t nsize;
  if (spherical) {
      nsize = 2 * L + 1;
  } else {
      nsize = ((L + 2) * (L + 1)) / 2;
  }
  \<close>
  \<^verbatim>\<open>L\<close> is a C \<^verbatim>\<open>int\<close>: the arithmetic is 32-bit signed arithmetic, undefined (here
  \<open>None\<close>) where an intermediate value leaves the range, with division truncating
  towards zero. The result is converted to \<^verbatim>\<open>size_t\<close> by the assignment.
\<close>

definition int_range :: "int \<Rightarrow> bool" where
  "int_range x = (- (2 ^ 31) \<le> x \<and> x < 2 ^ 31)"

definition c_int :: "int \<Rightarrow> int option" where
  "c_int x = (if int_range x then Some x else None)"

definition nsize :: "bool \<Rightarrow> int \<Rightarrow> 64 word option" where
  "nsize spherical L =
     (if spherical then
        Option.bind (c_int (2 * L)) (\<lambda>a.
        Option.bind (c_int (a + 1)) (\<lambda>b. Some (word_of_int b)))
      else
        Option.bind (c_int (L + 2)) (\<lambda>a.
        Option.bind (c_int (L + 1)) (\<lambda>b.
        Option.bind (c_int (a * b)) (\<lambda>c. Some (word_of_int (c sdiv 2))))))"

section \<open>The emitted C routines: machine model\<close>

text \<open>
  The transposers and the block copier emit C functions whose loop counters and indices
  all have type \<^verbatim>\<open>size_t\<close>: an unsigned 64-bit integer whose arithmetic wraps around.
  A buffer reached through a \<^verbatim>\<open>double*\<close> is modelled by its cells, addressed by the
  \<^verbatim>\<open>size_t\<close> index applied to the pointer. The element type is left open: the
  routines only copy elements. The \<^verbatim>\<open>input\<close> and \<^verbatim>\<open>output\<close> pointers are
  \<^verbatim>\<open>__restrict__\<close>: the two buffers are separate objects.
\<close>

type_synonym size_t = "64 word"

type_synonym 'a buffer = "size_t \<Rightarrow> 'a"

text \<open>
  The memory behind the \<^verbatim>\<open>output\<close> pointer: its cells, and the stores performed
  through the pointer so far, in program order (index and value stored).
\<close>

record 'a heap =
  cells :: "'a buffer"
  stores :: "(size_t \<times> 'a) list"

text \<open>The C statement \<^verbatim>\<open>output[idx] = v\<close>.\<close>

definition store :: "size_t \<Rightarrow> 'a \<Rightarrow> 'a heap \<Rightarrow> 'a heap" where
  "store idx v h = \<lparr>cells = (cells h)(idx := v), stores = stores h @ [(idx, v)]\<rparr>"

text \<open>
  The C loop \<^verbatim>\<open>for (size_t i = i0; i < n; i++) body\<close> over a state \<open>s\<close>, entered with
  the counter at \<open>i\<close>. The counter is below \<open>n\<close> when it is incremented, so the
  increment never wraps and the loop ends.
\<close>

function for_loop :: "size_t \<Rightarrow> size_t \<Rightarrow> (size_t \<Rightarrow> 's \<Rightarrow> 's) \<Rightarrow> 's \<Rightarrow> 's" where
  "for_loop i n body s = (if i < n then for_loop (i + 1) n body (body i s) else s)"
  by pat_completeness auto
termination
proof (relation "measure (\<lambda>(i, n, body, s). unat n - unat i)")
  show "wf (measure (\<lambda>(i, n, body, s). unat n - unat i))"
    by simp
next
  fix i n :: size_t and body :: "size_t \<Rightarrow> 's \<Rightarrow> 's" and s :: 's
  assume less: "i < n"
  have "unat n < 2 ^ 64"
    using unsigned_less [of n] by simp
  with less have "unat i + 1 < 2 ^ 64"
    by (simp add: word_less_nat_alt)
  then have "unat (i + 1) = Suc (unat i)"
    by (simp add: unat_word_ariths)
  with less show "((i + 1, n, body, body i s), (i, n, body, s))
      \<in> measure (\<lambda>(i, n, body, s). unat n - unat i)"
    by (simp add: word_less_nat_alt)
qed

declare for_loop.simps [simp del]

subsection \<open>\<^verbatim>\<open>naive_transpose\<close>: the emitted \<^verbatim>\<open>gg_naive_transpose\<close>\<close>

text \<open>
  \<^verbatim>\<open>
  void gg_naive_transpose(size_t n, size_t m, const double* input, double* output) {
      for (size_t i = 0; i < n; i++) {
          for (size_t j = 0; j < m; j++) {
              output[j * n + i] = input[i * m + j];
          }
      }
  }
  \<close>
\<close>

definition gg_naive_transpose ::
  "size_t \<Rightarrow> size_t \<Rightarrow> 'a buffer \<Rightarrow> 'a heap \<Rightarrow> 'a heap" where
  "gg_naive_transpose n m input output =
     for_loop 0 n (\<lambda>i.
       for_loop 0 m (\<lambda>j.
         store (j * n + i) (input (i * m + j)))) output"

subsection \<open>\<^verbatim>\<open>block_copy\<close>: the emitted \<^verbatim>\<open>block_copy\<close>\<close>

text \<open>
  \<^verbatim>\<open>
  void block_copy(size_t n, size_t m, const double* input, size_t is,
                  double* output, size_t os, const int trans) {
      for (size_t i = 0; i < n; i++) {
          const size_t out_shift = i * os;
          const size_t inp_shift = i * is;
          for (size_t j = 0; j < m; j++) {
              output[out_shift + j] = input[inp_shift + j];
          }
      }
  }
  \<close>
\<close>

definition block_copy_run ::
  "size_t \<Rightarrow> size_t \<Rightarrow> 'a buffer \<Rightarrow> size_t \<Rightarrow> 'a heap \<Rightarrow> size_t \<Rightarrow> 32 word \<Rightarrow> 'a heap" where
  "block_copy_run n m input is output os trans_flag =
     for_loop 0 n (\<lambda>i.
       let out_shift = i * os;
           inp_shift = i * is
       in for_loop 0 m (\<lambda>j.
            store (out_shift + j) (input (inp_shift + j)))) output"

subsection \<open>\<^verbatim>\<open>fast_transpose\<close>: the emitted \<^verbatim>\<open>gg_fast_transpose\<close>\<close>

text \<open>
  With \<^verbatim>\<open>T\<close> the decimal literal of \<^verbatim>\<open>inner_block\<close> and \<^verbatim>\<open>TT\<close> that of
  \<^verbatim>\<open>inner_block * inner_block\<close> (computed by Python):
  \<^verbatim>\<open>
  void gg_fast_transpose(size_t n, size_t m, const double* input, double* output) {
      double tmp[TT];
      size_t nblocks = n / T;
      nblocks += (n % T) ? 1 : 0;
      size_t mblocks = m / T;
      mblocks += (m % T) ? 1 : 0;
      for (size_t nb = 0; nb < nblocks; nb++) {
          const size_t nstart = nb * T;
          size_t nremain = ((nstart + T) > n) ? (n - nstart) : T;
          for (size_t mb = 0; mb < mblocks; mb++) {
              const size_t mstart = mb * T;
              size_t mremain = ((mstart + T) > m) ? (m - mstart) : T;
              for (size_t l = 0; l < nremain; l++) {
                  const size_t start = (nstart + l) * m + mstart;
                  for (size_t k = 0; k < mremain; k++) {
                      tmp[k * T + l] = input[start + k];
                  }
              }
              for (size_t k = 0; k < mremain; k++) {
                  const size_t start = (mstart + k) * n + nstart;
                  for (size_t l = 0; l < nremain; l++) {
                      output[start + l] = tmp[k * T + l];
                  }
              }
          }
      }
  }
  \<close>
  The staging array has a declared length, so every access to it is checked against
  that length: an access outside is a fault, which ends the run. The routine knows no
  length for \<^verbatim>\<open>input\<close> and \<^verbatim>\<open>output\<close>. The state of a run is the staging array
  and the output memory.
\<close>

datatype fault = Staging_out_of_bounds size_t

record 'a frame =
  tmp :: "'a buffer"
  out :: "'a heap"

text \<open>The loop again, over a body that can fault.\<close>

function for_loop_chk ::
  "size_t \<Rightarrow> size_t \<Rightarrow> (size_t \<Rightarrow> 's \<Rightarrow> fault + 's) \<Rightarrow> 's \<Rightarrow> fault + 's" where
  "for_loop_chk i n body s =
     (if i < n then
        (case body i s of Inl e \<Rightarrow> Inl e | Inr s' \<Rightarrow> for_loop_chk (i + 1) n body s')
      else Inr s)"
  by pat_completeness auto
termination
proof (relation "measure (\<lambda>(i, n, body, s). unat n - unat i)")
  show "wf (measure (\<lambda>(i, n, body, s). unat n - unat i))"
    by simp
next
  fix i n :: size_t and body :: "size_t \<Rightarrow> 's \<Rightarrow> fault + 's" and s s' :: 's
  assume less: "i < n"
  have "unat n < 2 ^ 64"
    using unsigned_less [of n] by simp
  with less have "unat i + 1 < 2 ^ 64"
    by (simp add: word_less_nat_alt)
  then have "unat (i + 1) = Suc (unat i)"
    by (simp add: unat_word_ariths)
  with less show "((i + 1, n, body, s'), (i, n, body, s))
      \<in> measure (\<lambda>(i, n, body, s). unat n - unat i)"
    by (simp add: word_less_nat_alt)
qed

declare for_loop_chk.simps [simp del]

text \<open>
  \<^verbatim>\<open>tmp[idx] = v\<close> and the value of \<^verbatim>\<open>tmp[idx]\<close>, for a staging array declared with
  \<open>len\<close> elements.
\<close>

definition tmp_store :: "nat \<Rightarrow> size_t \<Rightarrow> 'a \<Rightarrow> 'a frame \<Rightarrow> fault + 'a frame" where
  "tmp_store len idx v s =
     (if unat idx < len then Inr (s\<lparr>tmp := (tmp s)(idx := v)\<rparr>)
      else Inl (Staging_out_of_bounds idx))"

definition tmp_load :: "nat \<Rightarrow> size_t \<Rightarrow> 'a frame \<Rightarrow> fault + 'a" where
  "tmp_load len idx s =
     (if unat idx < len then Inr (tmp s idx) else Inl (Staging_out_of_bounds idx))"

text \<open>\<^verbatim>\<open>size_t nblocks = n / T; nblocks += (n % T) ? 1 : 0;\<close>\<close>

definition blocks :: "size_t \<Rightarrow> size_t \<Rightarrow> size_t" where
  "blocks t n =
     (let nblocks = n div t;
          nblocks = nblocks + (if n mod t \<noteq> 0 then 1 else 0)
      in nblocks)"

text \<open>\<^verbatim>\<open>const size_t nstart = nb * T;\<close>\<close>

definition tile_start :: "size_t \<Rightarrow> size_t \<Rightarrow> size_t" where
  "tile_start t nb = nb * t"

text \<open>\<^verbatim>\<open>size_t nremain = ((nstart + T) > n) ? (n - nstart) : T;\<close>\<close>

definition remain :: "size_t \<Rightarrow> size_t \<Rightarrow> size_t \<Rightarrow> size_t" where
  "remain t n nstart = (if nstart + t > n then n - nstart else t)"

text \<open>The first loop nest of a tile: from \<^verbatim>\<open>input\<close> into the staging array.\<close>

definition gather ::
  "nat \<Rightarrow> size_t \<Rightarrow> size_t \<Rightarrow> 'a buffer \<Rightarrow> size_t \<Rightarrow> size_t \<Rightarrow> size_t \<Rightarrow> size_t
    \<Rightarrow> 'a frame \<Rightarrow> fault + 'a frame" where
  "gather len t m input nstart nremain mstart mremain s =
     for_loop_chk 0 nremain (\<lambda>l s.
       let start = (nstart + l) * m + mstart
       in for_loop_chk 0 mremain (\<lambda>k s.
            tmp_store len (k * t + l) (input (start + k)) s) s) s"

text \<open>The second loop nest of a tile: from the staging array into \<^verbatim>\<open>output\<close>.\<close>

definition scatter ::
  "nat \<Rightarrow> size_t \<Rightarrow> size_t \<Rightarrow> size_t \<Rightarrow> size_t \<Rightarrow> size_t \<Rightarrow> size_t
    \<Rightarrow> 'a frame \<Rightarrow> fault + 'a frame" where
  "scatter len t n nstart nremain mstart mremain s =
     for_loop_chk 0 mremain (\<lambda>k s.
       let start = (mstart + k) * n + nstart
       in for_loop_chk 0 nremain (\<lambda>l s.
            case tmp_load len (k * t + l) s of
              Inl e \<Rightarrow> Inl e
            | Inr v \<Rightarrow> Inr (s\<lparr>out := store (start + l) v (out s)\<rparr>)) s) s"

text \<open>
  The whole routine. \<open>inner_block\<close> is the Python integer given to the generator; the
  literal \<^verbatim>\<open>T\<close> takes part in \<^verbatim>\<open>size_t\<close> arithmetic, and the staging array is
  declared with \<^verbatim>\<open>inner_block * inner_block\<close> elements. It is a local array: its
  initial contents \<open>tmp0\<close> are indeterminate.
\<close>

definition gg_fast_transpose ::
  "int \<Rightarrow> size_t \<Rightarrow> size_t \<Rightarrow> 'a buffer \<Rightarrow> 'a heap \<Rightarrow> 'a buffer \<Rightarrow> fault + 'a frame" where
  "gg_fast_transpose inner_block n m input output tmp0 =
     (let t = word_of_int inner_block;
          len = nat (inner_block * inner_block);
          nblocks = blocks t n;
          mblocks = blocks t m
      in for_loop_chk 0 nblocks (\<lambda>nb s.
           let nstart = tile_start t nb;
               nremain = remain t n nstart
           in for_loop_chk 0 mblocks (\<lambda>mb s.
                let mstart = tile_start t mb;
                    mremain = remain t m mstart
                in case gather len t m input nstart nremain mstart mremain s of
                     Inl e \<Rightarrow> Inl e
                   | Inr s \<Rightarrow> scatter len t n nstart nremain mstart mremain s) s)
           \<lparr>tmp = tmp0, out = output\<rparr>)"

text \<open>
  An array of \<open>len\<close> doubles is an object of \<open>8 * len\<close> bytes; it exists only if
  that size is a \<^verbatim>\<open>size_t\<close>.
\<close>

definition addressable :: "nat \<Rightarrow> bool" where
  "addressable len = (8 * len < 2 ^ 64)"

text \<open>A tile size for which the emitted routine has a staging array.\<close>

definition tile_ok :: "int \<Rightarrow> bool" where
  "tile_ok inner_block = (1 \<le> inner_block \<and> addressable (nat (inner_block * inner_block)))"

text \<open>An \<open>n\<close> by \<open>m\<close> matrix of doubles in one buffer.\<close>

definition matrix_ok :: "size_t \<Rightarrow> size_t \<Rightarrow> bool" where
  "matrix_ok n m = addressable (unat n * unat m)"

text \<open>The stores of a list, replayed on the cells of a buffer.\<close>

definition replay :: "(size_t \<times> 'a) list \<Rightarrow> 'a buffer \<Rightarrow> 'a buffer" where
  "replay ps c = fold (\<lambda>(idx, v) c. c(idx := v)) ps c"

text \<open>The values \<open>0, 1, \<dots>, n - 1\<close> a loop counter takes.\<close>

definition counter_values :: "size_t \<Rightarrow> size_t list" where
  "counter_values n = map of_nat [0..<unat n]"

text \<open>
  The transpose as the specification words it: for every \<open>(i, j)\<close> in
  \<open>[0,n) \<times> [0,m)\<close>, the store \<^verbatim>\<open>output[j*n + i] = input[i*m + j]\<close>.
\<close>

definition spec_transpose_stores :: "size_t \<Rightarrow> size_t \<Rightarrow> 'a buffer \<Rightarrow> (size_t \<times> 'a) list" where
  "spec_transpose_stores n m input =
     concat (map (\<lambda>i. map (\<lambda>j. (j * n + i, input (i * m + j))) (counter_values m))
       (counter_values n))"

text \<open>
  The block copy as the specification words it: for every \<open>i\<close> in \<open>[0,n)\<close> and \<open>j\<close>
  in \<open>[0,m)\<close>, row by row, \<^verbatim>\<open>output[i*output_stride + j] = input[i*input_stride + j]\<close>.
\<close>

definition spec_copy_stores ::
  "size_t \<Rightarrow> size_t \<Rightarrow> 'a buffer \<Rightarrow> size_t \<Rightarrow> size_t \<Rightarrow> (size_t \<times> 'a) list" where
  "spec_copy_stores n m input is os =
     concat (map (\<lambda>i. map (\<lambda>j. (i * os + j, input (i * is + j))) (counter_values m))
       (counter_values n))"

text \<open>
  Two notions for the proofs about the transposers. \<open>written_cells N M input W c0\<close>
  is the output memory \<open>c0\<close> after the cells of the matrix positions \<open>(i, j)\<close>
  selected by \<open>W\<close> have received their transposed values, cell \<open>j * N + i\<close> holding
  \<open>input[i * M + j]\<close>. \<open>tiles T N\<close> is the number of tiles of side \<open>T\<close> that
  cover \<open>N\<close> rows.
\<close>

definition written_cells ::
  "nat \<Rightarrow> nat \<Rightarrow> 'a buffer \<Rightarrow> (nat \<Rightarrow> nat \<Rightarrow> bool) \<Rightarrow> 'a buffer \<Rightarrow> 'a buffer" where
  "written_cells N M input W c0 =
     (\<lambda>p. if unat p < N * M \<and> W (unat p mod N) (unat p div N)
          then input (of_nat (unat p mod N * M + unat p div N)) else c0 p)"

definition tiles :: "nat \<Rightarrow> nat \<Rightarrow> nat" where
  "tiles T N = N div T + (if N mod T \<noteq> 0 then 1 else 0)"

section \<open>Loops as folds\<close>

lemma unat_succ_below:
  fixes i n :: size_t
  assumes "i < n"
  shows "unat (i + 1) = Suc (unat i)"
proof -
  have "unat n < 2 ^ 64"
    using unsigned_less [of n] by simp
  with assms have "unat i + 1 < 2 ^ 64"
    by (simp add: word_less_nat_alt)
  then show ?thesis
    by (simp add: unat_word_ariths)
qed

lemma for_loop_from:
  "i \<le> n \<Longrightarrow> for_loop i n body s = fold (\<lambda>k. body (of_nat k)) [unat i..<unat n] s"
proof (induction i n body s rule: for_loop.induct)
  case (1 i n body s)
  show ?case
  proof (cases "i < n")
    case True
    then have suc: "unat (i + 1) = Suc (unat i)"
      by (rule unat_succ_below)
    from True have lt: "unat i < unat n"
      by (simp add: word_less_nat_alt)
    then have le: "i + 1 \<le> n"
      using suc by (simp add: word_le_nat_alt)
    have "for_loop i n body s = for_loop (i + 1) n body (body i s)"
      using True by (simp add: for_loop.simps [of i])
    also have "\<dots> = fold (\<lambda>k. body (of_nat k)) [Suc (unat i)..<unat n] (body i s)"
      using "1.IH" [OF True le] suc by simp
    also have "\<dots> = fold (\<lambda>k. body (of_nat k)) [unat i..<unat n] s"
      using lt by (simp add: upt_conv_Cons)
    finally show ?thesis .
  next
    case False
    with "1.prems" have "i = n"
      by simp
    then show ?thesis
      by (simp add: for_loop.simps [of n])
  qed
qed

lemma for_loop_fold:
  "for_loop 0 n body s = fold body (counter_values n) s"
  using for_loop_from [of 0 n body s] by (simp add: counter_values_def fold_map comp_def)

lemma fold_store_replay:
  "fold (\<lambda>(idx, v). store idx v) ps h
     = \<lparr>cells = replay ps (cells h), stores = stores h @ ps\<rparr>"
proof (induction ps arbitrary: h)
  case Nil
  show ?case by (simp add: replay_def)
next
  case (Cons p ps)
  obtain idx v where p: "p = (idx, v)"
    by (cases p)
  have "fold (\<lambda>(idx, v). store idx v) (p # ps) h
      = fold (\<lambda>(idx, v). store idx v) ps (store idx v h)"
    by (simp add: p)
  also have "\<dots> = \<lparr>cells = replay ps (cells (store idx v h)),
      stores = stores (store idx v h) @ ps\<rparr>"
    by (rule Cons.IH)
  also have "\<dots> = \<lparr>cells = replay (p # ps) (cells h), stores = stores h @ p # ps\<rparr>"
    by (simp add: store_def replay_def p)
  finally show ?case .
qed

lemma fold_store_nested:
  "fold (\<lambda>i. fold (\<lambda>j. store (a i j) (v i j)) ys) xs h
     = fold (\<lambda>(idx, v). store idx v) (concat (map (\<lambda>i. map (\<lambda>j. (a i j, v i j)) ys) xs)) h"
  by (induction xs arbitrary: h) (simp_all add: fold_map comp_def)

lemma counter_values_0: "counter_values 0 = []"
  by (simp add: counter_values_def)

lemma concat_map_Nil: "concat (map (\<lambda>i. []) xs) = []"
  by (induction xs) simp_all

lemma nesting_append:
  "nesting (xs @ ys) d = Option.bind (nesting xs d) (nesting ys)"
  by (induction xs d rule: nesting.induct) (simp_all split: nat.splits)

lemma nesting_for_each:
  "(\<And>x d. nesting (body x) d = Some d) \<Longrightarrow> nesting (for_each xs body) d = Some d"
  by (induction xs) (simp_all add: for_each_def nesting_append)

lemma cg_run_nesting:
  "nesting cs d = Some k \<Longrightarrow> length hs = d \<Longrightarrow> block_stack ctx = hs @ base
    \<Longrightarrow> indentation ctx = ind + d
    \<Longrightarrow> \<exists>ctx' hs'. cg_run cs ctx = Inr ctx' \<and> length hs' = k
          \<and> block_stack ctx' = hs' @ base \<and> indentation ctx' = ind + k"
proof (induction cs arbitrary: d hs ctx)
  case Nil
  then show ?case by auto
next
  case (Cons c cs)
  show ?case
  proof (cases c)
    case (Start_c_block h)
    let ?ctx = "(emit_line (h @ '' {'') ctx)
            \<lparr>block_stack := h # block_stack ctx, indentation := Suc (indentation ctx)\<rparr>"
    have "nesting cs (Suc d) = Some k"
      using Cons.prems(1) Start_c_block by simp
    moreover have "length (h # hs) = Suc d"
      using Cons.prems(2) by simp
    moreover have "block_stack ?ctx = (h # hs) @ base"
      using Cons.prems(3) by (simp add: emit_line_def)
    moreover have "indentation ?ctx = ind + Suc d"
      using Cons.prems(4) by (simp add: emit_line_def)
    ultimately obtain ctx' hs' where "cg_run cs ?ctx = Inr ctx'" "length hs' = k"
        "block_stack ctx' = hs' @ base" "indentation ctx' = ind + k"
      using Cons.IH by blast
    then show ?thesis
      using Start_c_block by auto
  next
    case Close_c_block
    from Cons.prems(1) Close_c_block obtain d' where d: "d = Suc d'" and n: "nesting cs d' = Some k"
      by (cases d) simp_all
    from d Cons.prems(2) obtain h hs0 where hs: "hs = h # hs0" and len: "length hs0 = d'"
      by (cases hs) simp_all
    let ?ctx = "emit_line ''}'' (ctx\<lparr>block_stack := hs0 @ base, indentation := indentation ctx - 1\<rparr>)"
    have "block_stack ?ctx = hs0 @ base"
      by (simp add: emit_line_def)
    moreover have "indentation ?ctx = ind + d'"
      using Cons.prems(4) d by (simp add: emit_line_def)
    ultimately obtain ctx' hs' where "cg_run cs ?ctx = Inr ctx'" "length hs' = k"
        "block_stack ctx' = hs' @ base" "indentation ctx' = ind + k"
      using Cons.IH [OF n len] by blast
    then show ?thesis
      using Close_c_block Cons.prems(3) hs by auto
  next
    case (Write l)
    have "block_stack (emit_line l ctx) = hs @ base" "indentation (emit_line l ctx) = ind + d"
      using Cons.prems by (simp_all add: emit_line_def)
    then show ?thesis
      using Cons.IH [of d hs "emit_line l ctx"] Cons.prems(1,2) Write by simp
  next
    case (Write_endl l e)
    have "block_stack (emit_line (l @ e) ctx) = hs @ base"
        "indentation (emit_line (l @ e) ctx) = ind + d"
      using Cons.prems by (simp_all add: emit_line_def)
    then show ?thesis
      using Cons.IH [of d hs "emit_line (l @ e) ctx"] Cons.prems(1,2) Write_endl by simp
  next
    case Blankline
    let ?ctx = "ctx\<lparr>emitted := emitted ctx @ [(0, [])]\<rparr>"
    have "block_stack ?ctx = hs @ base" "indentation ?ctx = ind + d"
      using Cons.prems by simp_all
    then show ?thesis
      using Cons.IH [of d hs ?ctx] Cons.prems(1,2) Blankline by simp
  qed
qed

lemma balanced_run:
  assumes "nesting cs 0 = Some 0"
  shows "nesting_state (cg_run cs ctx) = Inr (block_stack ctx, indentation ctx)"
proof -
  obtain ctx' hs' where "cg_run cs ctx = Inr ctx'" "length hs' = 0"
      "block_stack ctx' = hs' @ block_stack ctx" "indentation ctx' = indentation ctx + 0"
    using cg_run_nesting [OF assms, of "[]" ctx "block_stack ctx" "indentation ctx"] by auto
  then show ?thesis
    by (simp add: nesting_state_def)
qed

lemma nesting_pybind11_func:
  "nesting (pybind11_func get_deriv_indices name grad call_name max_L) d = Some d"
  by (simp add: pybind11_func_def Let_def nesting_append nesting_for_each)

lemma nesting_pybind11_transpose:
  "nesting (pybind11_transpose func_name wrapper_name) d = Some d"
  by (simp add: pybind11_transpose_def Let_def)

lemma nesting_naive_transpose: "nesting (fst naive_transpose) d = Some d"
  by (simp add: naive_transpose_def Let_def)

lemma nesting_fast_transpose: "nesting (fst (fast_transpose inner_block)) d = Some d"
  by (simp add: fast_transpose_def Let_def)

lemma nesting_block_copy: "nesting (fst block_copy) d = Some d"
  by (simp add: block_copy_def Let_def)

section \<open>Reading wrappers\<close>

lemma block_headers_append:
  "block_headers (xs @ ys) = block_headers xs @ block_headers ys"
  by (induction xs rule: block_headers.induct) simp_all

lemma written_append: "written (xs @ ys) = written xs @ written ys"
  by (induction xs rule: written.induct) simp_all

lemma starts_with_before:
  "starts_with p (s @ c # r) \<Longrightarrow> c \<notin> set p \<Longrightarrow> set p \<subseteq> set s"
proof (induction p arbitrary: s)
  case Nil
  show ?case by simp
next
  case (Cons x p)
  show ?case
  proof (cases s)
    case Nil
    with Cons.prems show ?thesis by simp
  next
    case (Cons y s')
    with Cons.prems have "x = y" and "starts_with p (s' @ c # r)" and "c \<notin> set p"
      by simp_all
    with Cons.IH [of s'] Cons show ?thesis
      by auto
  qed
qed

lemma ident_char_space: "\<not> ident_char CHR '' ''"
  by (simp add: ident_char_def)

lemma ident_not_throw:
  assumes "c_identifier s"
  shows "\<not> is_throw (s @ CHR ''('' # r)"
proof
  assume thr: "is_throw (s @ CHR ''('' # r)"
  from assms obtain c s' where s: "s = c # s'" and all: "list_all ident_char s"
    by (cases s) (simp_all add: c_identifier_def)
  then have "c \<noteq> CHR '' ''"
    using ident_char_space by auto
  with thr s have "starts_with ''throw '' (s @ CHR ''('' # r)"
    by (simp add: is_throw_def)
  then have "set ''throw '' \<subseteq> set s"
    by (rule starts_with_before) simp
  then have "CHR '' '' \<in> set s"
    by simp
  with all have "ident_char CHR '' ''"
    by (simp add: list_all_iff)
  then show False
    by (simp add: ident_char_space)
qed

lemma ident_not_comment:
  assumes "c_identifier s"
  shows "\<not> is_comment (s @ r)"
proof -
  from assms obtain c s' where s: "s = c # s'" and "ident_char c"
    by (cases s) (simp_all add: c_identifier_def)
  then have "c \<noteq> CHR ''/''"
    by (auto simp add: ident_char_def)
  with s show ?thesis
    by (simp add: is_comment_def)
qed


lemma block_headers_for_each:
  "block_headers (for_each ds body) = concat (map (\<lambda>d. block_headers (body d)) ds)"
  by (induction ds) (simp_all add: for_each_def block_headers_append)

lemma written_for_each:
  "written (for_each ds body) = concat (map (\<lambda>d. written (body d)) ds)"
  by (induction ds) (simp_all add: for_each_def written_append)

lemma one_line_blocks_for_each_writes:
  "one_line_blocks (for_each ds (\<lambda>d. [Write (l d)]) @ rest) = one_line_blocks rest"
  by (induction ds) (simp_all add: for_each_def)

lemma one_line_blocks_for_each_guards:
  "one_line_blocks (for_each ds (\<lambda>d. [Start_c_block (h d), Write (l d), Close_c_block]) @ rest)
     = map (\<lambda>d. (h d, l d)) ds @ one_line_blocks rest"
  by (induction ds) (simp_all add: for_each_def)

lemma exec_for_each_writes:
  assumes "\<And>d. \<not> is_comment (l d)" and "\<And>d. \<not> is_throw (l d)"
  shows "exec holds (for_each ds (\<lambda>d. [Write (l d)]) @ rest) 0 trace
     = exec holds rest 0 (trace @ map l ds)"
  using assms by (induction ds arbitrary: trace) (simp_all add: for_each_def)

lemma exec_for_each_guards:
  assumes "\<And>d. is_if (h d)" and "\<And>d. \<not> is_comment (l d)" and "\<And>d. is_throw (l d)"
  shows "exec holds (for_each ds (\<lambda>d. [Start_c_block (h d), Write (l d), Close_c_block]) @ rest)
       0 trace
     = (case find (\<lambda>d. holds (cond_of (h d))) ds of
          Some d \<Rightarrow> Throws (l d)
        | None \<Rightarrow> exec holds rest 0 trace)"
  using assms by (induction ds) (simp_all add: for_each_def)

lemma find_map_pairs:
  "find (\<lambda>(h, t). P h) (map (\<lambda>d. (f d, g d)) ds @ rest)
     = (case find (\<lambda>d. P (f d)) ds of
          Some d \<Rightarrow> Some (f d, g d)
        | None \<Rightarrow> find (\<lambda>(h, t). P h) rest)"
  by (induction ds) simp_all

lemma fold_append_each:
  "fold (\<lambda>x s. s @ g x) xs s0 = s0 @ concat (map g xs)"
  by (induction xs arbitrary: s0) simp_all

lemma find_map_pairs_end:
  "find (\<lambda>(h, t). P h) (map (\<lambda>d. (f d, g d)) ds)
     = (case find (\<lambda>d. P (f d)) ds of
          Some d \<Rightarrow> Some (f d, g d)
        | None \<Rightarrow> None)"
  by (induction ds) simp_all

lemma join_Cons: "join sep (x # xs) = x @ concat (map (\<lambda>y. sep @ y) xs)"
  by (induction xs arbitrary: x) simp_all

lemma digits_last: "\<exists>ds (k::nat). digits n = ds @ [char_of (48 + k)] \<and> k < 10"
proof (cases "n < 10")
  case True
  then have "digits n = [] @ [char_of (48 + n)]"
    by (simp add: digits.simps [of n])
  with True show ?thesis by blast
next
  case False
  then have "digits n = digits (n div 10) @ [char_of (48 + n mod 10)]"
    by (simp add: digits.simps [of n])
  moreover have "n mod 10 < 10" by simp
  ultimately show ?thesis by blast
qed

lemma fmt_d_last: "\<exists>ds (k::nat). fmt_d i = ds @ [char_of (48 + k)] \<and> k < 10"
proof (cases "i < 0")
  case True
  obtain ds and k :: nat where "digits (nat (- i)) = ds @ [char_of (48 + k)]" "k < 10"
    using digits_last by blast
  with True have "fmt_d i = (CHR ''-'' # ds) @ [char_of (48 + k)]"
    by (simp add: fmt_d_def)
  with \<open>k < 10\<close> show ?thesis by blast
next
  case False
  then show ?thesis
    using digits_last [of "nat i"] by (simp add: fmt_d_def)
qed

lemma digit_char_not_e: "k < 10 \<Longrightarrow> char_of (48 + k :: nat) \<noteq> CHR ''e''"
proof
  assume "k < 10" and "char_of (48 + k) = CHR ''e''"
  then have "of_char (char_of (48 + k) :: char) = (of_char CHR ''e'' :: nat)"
    by simp
  with \<open>k < 10\<close> show False
    by simp
qed

lemma not_ends_with_nsize_fmt_d: "\<not> ends_with ''nsize'' (s @ fmt_d i)"
proof -
  obtain ds and k :: nat where "fmt_d i = ds @ [char_of (48 + k)]" "k < 10"
    using fmt_d_last by blast
  then show ?thesis
    using digit_char_not_e [of k] by (simp add: ends_with_def)
qed

lemma cond_of_spherical: "cond_of ''if (spherical)'' = ''spherical''"
  by (simp add: cond_of_def)

lemma one_line_blocks_pybind11_func:
  \<open>one_line_blocks (pybind11_func get_deriv_indices name grad call_name max_L) =
     [((''if (L > '' @ fmt_d max_L @ '')''),
         (''    throw std::invalid_argument("Exceeded compiled angular momentum of '' @ fmt_d max_L @ ''. Please recompile with a higher angular momentum.'' @ esc_n @ ''")'')),
        (''if (arr_xyz.shape(0) != 3)'',
         (''    throw std::length_error("Length of XYZ array must be (3, n).'' @ esc_n @ ''")'')),
        (''if (coeffs.shape(0) != exponents.shape(0))'',
         (''    throw std::length_error("Length of coefficients and exponents must match.'' @ esc_n @ ''")'')),
        (''if (center.shape(0) != 3)'',
         (''    throw std::length_error("Length of center vector must be 3 (X, Y, Z).'' @ esc_n @ ''")'')),
        (''if (out.shape(0) != nsize)'',
         (''    throw std::length_error("Size of the output array does not match the angular momentum.'' @ esc_n @ ''")''))]
       @ map (\<lambda>cart.
           ((''if (out_'' @ cart @ ''.shape(0) != nsize)''),
            (''    throw std::length_error("Size of the output '' @ upper cart @ '' array does not match the angular momentum.'' @ esc_n @ ''")''))) (get_deriv_indices grad)
       @ [(''if (out.shape(1) != arr_xyz.shape(1))'',
         (''    throw std::length_error("Size of the output array and XYZ array must be the same.'' @ esc_n @ ''")''))]
       @ map (\<lambda>cart.
           ((''if (out_'' @ cart @ ''.shape(1) != arr_xyz.shape(1))''),
            (''    throw std::length_error("Size of the output '' @ upper cart @ '' array and XYZ array must be the same.'' @ esc_n @ ''")''))) (get_deriv_indices grad)\<close>
  by (simp add: pybind11_func_def Let_def one_line_blocks_for_each_writes
      one_line_blocks_for_each_guards)

lemma exec_pybind11_func:
  assumes "c_identifier call_name"
  shows \<open>exec holds (pybind11_func get_deriv_indices name grad call_name max_L) 0 [] =
     (case find (\<lambda>(h, t). holds (cond_of h))
        ([((''if (L > '' @ fmt_d max_L @ '')''),
         (''    throw std::invalid_argument("Exceeded compiled angular momentum of '' @ fmt_d max_L @ ''. Please recompile with a higher angular momentum.'' @ esc_n @ ''")'')),
        (''if (arr_xyz.shape(0) != 3)'',
         (''    throw std::length_error("Length of XYZ array must be (3, n).'' @ esc_n @ ''")'')),
        (''if (coeffs.shape(0) != exponents.shape(0))'',
         (''    throw std::length_error("Length of coefficients and exponents must match.'' @ esc_n @ ''")'')),
        (''if (center.shape(0) != 3)'',
         (''    throw std::length_error("Length of center vector must be 3 (X, Y, Z).'' @ esc_n @ ''")'')),
        (''if (out.shape(0) != nsize)'',
         (''    throw std::length_error("Size of the output array does not match the angular momentum.'' @ esc_n @ ''")''))]
       @ map (\<lambda>cart.
           ((''if (out_'' @ cart @ ''.shape(0) != nsize)''),
            (''    throw std::length_error("Size of the output '' @ upper cart @ '' array does not match the angular momentum.'' @ esc_n @ ''")''))) (get_deriv_indices grad)
       @ [(''if (out.shape(1) != arr_xyz.shape(1))'',
         (''    throw std::length_error("Size of the output array and XYZ array must be the same.'' @ esc_n @ ''")''))]
       @ map (\<lambda>cart.
           ((''if (out_'' @ cart @ ''.shape(1) != arr_xyz.shape(1))''),
            (''    throw std::length_error("Size of the output '' @ upper cart @ '' array and XYZ array must be the same.'' @ esc_n @ ''")''))) (get_deriv_indices grad)) of
        Some (h, t) \<Rightarrow> Throws t
      | None \<Rightarrow> Returns
         ([''auto xyz = arr_xyz.unchecked<2>()'',
           ''auto coeffs = arr_coeffs.unchecked<1>()'',
           ''auto exponents = arr_exponents.unchecked<1>()'',
           ''auto center = arr_center.unchecked<1>()'',
           ''auto out = arr_out.mutable_unchecked<2>()'']
          @ map (\<lambda>cart. ''auto out_'' @ cart @ '' = arr_'' @ cart @ ''_out.mutable_unchecked<2>()'')
              (get_deriv_indices grad)
          @ [''size_t nsize'',
             if holds ''spherical'' then ''    nsize = 2 * L + 1''
             else ''    nsize = ((L + 2) * (L + 1)) / 2'',
             call_name @ ''(L, xyz.shape(1), xyz.data(0, 0), xyz.data(1, 0), xyz.data(2, 0), coeffs.shape(0), coeffs.data(0), exponents.data(0), center.data(0), spherical, out.mutable_data(0, 0)''
         @ concat (map (\<lambda>cart. '', out_'' @ cart @ ''.mutable_data(0, 0)'') (get_deriv_indices grad))
         @ '')'']))\<close>
  using ident_not_throw [OF assms] ident_not_comment [OF assms]
  by (simp add: pybind11_func_def Let_def fold_append_each exec_for_each_writes
      exec_for_each_guards find_map_pairs find_map_pairs_end cond_of_spherical is_if_def
      is_comment_def is_throw_def is_else_def esc_n_def
      split: option.splits)

lemma uint_size_t:
  "uint (word_of_int x :: 64 word) = (if 0 \<le> x \<and> x < 2 ^ 64 then x else x mod 2 ^ 64)"
  by (simp add: uint_word_of_int_eq take_bit_eq_mod)

section \<open>Rules for the checked loop\<close>

lemma for_loop_chk_from:
  assumes "i \<le> n" and "P (unat i) s"
    and step: "\<And>k s. k < unat n \<Longrightarrow> P k s \<Longrightarrow> \<exists>s'. body (of_nat k) s = Inr s' \<and> P (Suc k) s'"
  shows "\<exists>s'. for_loop_chk i n body s = Inr s' \<and> P (unat n) s'"
  using assms
proof (induction i n body s rule: for_loop_chk.induct)
  case (1 i n body s)
  show ?case
  proof (cases "i < n")
    case True
    then have suc: "unat (i + 1) = Suc (unat i)"
      by (rule unat_succ_below)
    from True have lt: "unat i < unat n"
      by (simp add: word_less_nat_alt)
    then have le: "i + 1 \<le> n"
      using suc by (simp add: word_le_nat_alt)
    from "1.prems"(3) [OF lt "1.prems"(2)] obtain s' where
      body: "body i s = Inr s'" and P': "P (Suc (unat i)) s'"
      by auto
    have "\<exists>s''. for_loop_chk (i + 1) n body s' = Inr s'' \<and> P (unat n) s''"
      using "1.IH" [OF True body le] P' suc "1.prems"(3) by simp
    then show ?thesis
      using True body by (simp add: for_loop_chk.simps [of i])
  next
    case False
    with "1.prems"(1) have "i = n"
      by simp
    then show ?thesis
      using "1.prems"(2) by (simp add: for_loop_chk.simps [of n])
  qed
qed

lemma for_loop_chk_invariant:
  assumes "P 0 s"
    and "\<And>k s. k < unat n \<Longrightarrow> P k s \<Longrightarrow> \<exists>s'. body (of_nat k) s = Inr s' \<and> P (Suc k) s'"
  shows "\<exists>s'. for_loop_chk 0 n body s = Inr s' \<and> P (unat n) s'"
  using for_loop_chk_from [of 0 n P s body] assms by simp

lemma for_loop_invariant:
  assumes "P 0 s"
    and step: "\<And>k s. k < unat n \<Longrightarrow> P k s \<Longrightarrow> P (Suc k) (body (of_nat k) s)"
  shows "P (unat n) (for_loop 0 n body s)"
proof -
  have "k \<le> unat n \<Longrightarrow> P k (fold (\<lambda>k. body (of_nat k)) [0..<k] s)" for k
  proof (induction k)
    case 0
    show ?case using assms(1) by simp
  next
    case (Suc k)
    then show ?case
      using step [of k] by simp
  qed
  then show ?thesis
    by (simp add: for_loop_fold counter_values_def fold_map comp_def)
qed

section \<open>Index arithmetic\<close>

lemma cell_below:
  fixes i j N M :: nat
  assumes "i < N" and "j < M"
  shows "j * N + i < N * M"
proof -
  have "j * N + i < j * N + N"
    using assms(1) by simp
  also have "\<dots> = Suc j * N"
    by simp
  also have "\<dots> \<le> M * N"
    using assms(2) by (intro mult_le_mono1) simp
  finally show ?thesis
    by (simp add: mult.commute)
qed

lemma cell_div_mod:
  fixes i j N :: nat
  assumes "i < N"
  shows "(j * N + i) mod N = i" and "(j * N + i) div N = j"
  using assms by simp_all

lemma unat_cell:
  fixes i j N M :: nat
  assumes "i < N" and "j < M" and "N * M < 2 ^ 64"
  shows "unat (of_nat (j * N + i) :: size_t) = j * N + i"
proof -
  have "j * N + i < 2 ^ 64"
    using cell_below [OF assms(1,2)] assms(3) by simp
  then show ?thesis
    by (intro of_nat_inverse [OF refl]) simp
qed

lemma written_cells_store:
  assumes "i < N" and "j < M" and "N * M < 2 ^ 64"
  shows "(written_cells N M input W c0)(of_nat (j * N + i) := input (of_nat (i * M + j)))
     = written_cells N M input (\<lambda>i' j'. W i' j' \<or> (i' = i \<and> j' = j)) c0"
proof (rule ext)
  fix p :: size_t
  let ?q = "of_nat (j * N + i) :: size_t"
  have q: "unat ?q = j * N + i"
    using assms by (rule unat_cell)
  show "((written_cells N M input W c0)(?q := input (of_nat (i * M + j)))) p
     = written_cells N M input (\<lambda>i' j'. W i' j' \<or> (i' = i \<and> j' = j)) c0 p"
  proof (cases "p = ?q")
    case True
    then show ?thesis
      using q cell_below [OF assms(1,2)] assms(1) by (simp add: written_cells_def)
  next
    case False
    have "\<not> (unat p mod N = i \<and> unat p div N = j)"
    proof
      assume "unat p mod N = i \<and> unat p div N = j"
      then have "unat p = j * N + i"
        using div_mult_mod_eq [of "unat p" N] by simp
      then have "unat p = unat ?q"
        using q by simp
      then have "p = ?q"
        by (simp only: word_unat_eq_iff)
      with False show False
        by simp
    qed
    then show ?thesis
      using False by (auto simp add: written_cells_def)
  qed
qed

lemma written_cells_cong:
  assumes "\<And>i j. i < N \<Longrightarrow> j < M \<Longrightarrow> W i j = W' i j"
  shows "written_cells N M input W c0 = written_cells N M input W' c0"
proof (rule ext)
  fix p :: size_t
  show "written_cells N M input W c0 p = written_cells N M input W' c0 p"
  proof (cases "unat p < N * M")
    case True
    then have "0 < N"
      by (cases N) simp_all
    then have "unat p mod N < N"
      by simp
    moreover have "unat p div N < M"
      using True by (simp add: less_mult_imp_div_less mult.commute)
    ultimately have "W (unat p mod N) (unat p div N) = W' (unat p mod N) (unat p div N)"
      by (rule assms)
    then show ?thesis
      by (simp add: written_cells_def)
  next
    case False
    then show ?thesis
      by (simp add: written_cells_def)
  qed
qed

lemma written_cells_none:
  "written_cells N M input (\<lambda>i j. False) c0 = c0"
  by (rule ext) (simp add: written_cells_def)

section \<open>Tiles\<close>

lemma tiles_le:
  assumes "0 < T"
  shows "tiles T N \<le> N"
proof (cases "N mod T = 0")
  case True
  then show ?thesis
    using assms by (simp add: tiles_def)
next
  case False
  have "N \<noteq> 0"
    using False by (cases "N = 0") simp_all
  moreover have "T \<noteq> 1"
    using False by (cases "T = 1") simp_all
  ultimately have "N \<noteq> 0" and "T \<noteq> 1" .
  then have "0 < N" and "1 < T"
    using assms by simp_all
  then have "N div T < N"
    by simp
  with False show ?thesis
    by (simp add: tiles_def)
qed

lemma tile_start_below:
  assumes "0 < T" and "k < tiles T N"
  shows "k * T < N"
proof (cases "N mod T = 0")
  case True
  with assms(2) have "k < N div T"
    by (simp add: tiles_def)
  then have "Suc k * T \<le> N div T * T"
    by (intro mult_le_mono1) simp
  also have "\<dots> = N"
    using True by (simp add: mod_eq_0_iff_dvd)
  finally show ?thesis
    using assms(1) by simp
next
  case False
  with assms(2) have "k \<le> N div T"
    by (simp add: tiles_def)
  then have "k * T \<le> N div T * T"
    by (intro mult_le_mono1)
  also have "\<dots> < N"
    using False div_mult_mod_eq [of N T] by linarith
  finally show ?thesis .
qed

lemma row_tile_below:
  assumes "0 < T" and "i < N"
  shows "i div T < tiles T N"
proof (cases "N mod T = 0")
  case True
  then have "N = N div T * T"
    by (simp add: mod_eq_0_iff_dvd)
  with assms(2) have "i < N div T * T"
    by simp
  then have "i div T < N div T"
    by (simp add: less_mult_imp_div_less)
  with True show ?thesis
    by (simp add: tiles_def)
next
  case False
  have "i div T \<le> N div T"
    using assms(2) by (intro div_le_mono) simp
  with False show ?thesis
    by (simp add: tiles_def)
qed

lemma unat_plus_below:
  fixes a b :: size_t
  assumes "unat a + unat b < 2 ^ 64"
  shows "unat (a + b) = unat a + unat b"
  using assms by (simp add: unat_word_ariths)

lemma unat_blocks:
  assumes "t \<noteq> 0"
  shows "unat (blocks t n) = tiles (unat t) (unat n)"
proof -
  have T: "0 < unat t"
    using assms by (simp add: unat_gt_0)
  have le: "tiles (unat t) (unat n) \<le> unat n"
    using T by (rule tiles_le)
  have "unat n < 2 ^ 64"
    using unsigned_less [of n] by simp
  with le have small: "tiles (unat t) (unat n) < 2 ^ 64"
    by simp
  have "unat (n mod t) = unat n mod unat t"
    by (rule unat_mod)
  then have rest: "n mod t \<noteq> 0 \<longleftrightarrow> unat n mod unat t \<noteq> 0"
    using unat_eq_zero [of "n mod t"] by simp
  have dv: "unat (n div t) = unat n div unat t"
    by (rule unat_div)
  show ?thesis
  proof (cases "unat n mod unat t = 0")
    case True
    with rest have "n mod t = 0"
      by simp
    then have "blocks t n = n div t"
      by (simp add: blocks_def)
    with True dv show ?thesis
      by (simp add: tiles_def)
  next
    case False
    with rest have "n mod t \<noteq> 0"
      by simp
    then have b: "blocks t n = n div t + 1"
      by (simp add: blocks_def)
    from False small dv have "unat (n div t) + unat (1 :: size_t) < 2 ^ 64"
      by (simp add: tiles_def)
    then have "unat (n div t + 1) = unat (n div t) + unat (1 :: size_t)"
      by (rule unat_plus_below)
    with False dv b show ?thesis
      by (simp add: tiles_def)
  qed
qed

lemma unat_tile_start:
  fixes n :: size_t
  assumes "t \<noteq> 0" and "k < tiles (unat t) (unat n)"
  shows "unat (tile_start t (of_nat k)) = k * unat t"
proof -
  have "0 < unat t"
    using assms(1) by (simp add: unat_gt_0)
  then have "k * unat t < unat n"
    using assms(2) by (rule tile_start_below)
  moreover have "unat n < 2 ^ 64"
    using unsigned_less [of n] by simp
  ultimately have "k * unat t < 2 ^ 64"
    by simp
  moreover have "tile_start t (of_nat k) = of_nat (k * unat t)"
    by (simp add: tile_start_def)
  ultimately show ?thesis
    by (intro of_nat_inverse) simp_all
qed


lemma unat_plus_wraps:
  fixes a b :: size_t
  assumes "\<not> unat a + unat b < 2 ^ 64"
  shows "unat (a + b) < unat a"
proof -
  define K :: nat where "K = 2 ^ 64"
  have a: "unat a < K" and b: "unat b < K"
    using unsigned_less [of a] unsigned_less [of b] by (simp_all add: K_def)
  have ge: "K \<le> unat a + unat b"
    using assms by (simp add: K_def)
  have "unat (a + b) = (unat a + unat b) mod K"
    by (simp add: unat_word_ariths K_def)
  also have "\<dots> = (unat a + unat b - K) mod K"
    using ge by (rule le_mod_geq)
  also have "\<dots> = unat a + unat b - K"
    using a b by (intro mod_less) arith
  also have "\<dots> < unat a"
    using ge b by arith
  finally show ?thesis .
qed

lemma unat_remain_le:
  assumes "t \<noteq> 0" and "unat nstart < unat n"
  shows "unat (remain t n nstart) \<le> unat t" and "0 < unat (remain t n nstart)"
proof -
  have T: "0 < unat t"
    using assms(1) by (simp add: unat_gt_0)
  have le: "nstart \<le> n"
    using assms(2) by (simp add: word_le_nat_alt)
  have diff: "unat (n - nstart) = unat n - unat nstart"
    using le by (rule unat_sub)
  have bound: "unat n - unat nstart \<le> unat t" if "nstart + t > n"
  proof (cases "unat nstart + unat t < 2 ^ 64")
    case True
    then have "unat (nstart + t) = unat nstart + unat t"
      by (rule unat_plus_below)
    moreover have "unat n < unat (nstart + t)"
      using that by (simp only: word_less_nat_alt)
    ultimately show ?thesis
      by arith
  next
    case False
    then have "unat (nstart + t) < unat nstart"
      by (rule unat_plus_wraps)
    moreover have "unat n < unat (nstart + t)"
      using that by (simp only: word_less_nat_alt)
    ultimately show ?thesis
      using assms(2) by arith
  qed
  show "unat (remain t n nstart) \<le> unat t"
  proof (cases "nstart + t > n")
    case True
    then have "remain t n nstart = n - nstart"
      by (simp add: remain_def)
    with bound [OF True] diff show ?thesis
      by simp
  next
    case False
    then have "remain t n nstart = t"
      by (simp add: remain_def)
    then show ?thesis
      by simp
  qed
  show "0 < unat (remain t n nstart)"
  proof (cases "nstart + t > n")
    case True
    then have "remain t n nstart = n - nstart"
      by (simp add: remain_def)
    with diff assms(2) show ?thesis
      by simp
  next
    case False
    then have "remain t n nstart = t"
      by (simp add: remain_def)
    with T show ?thesis
      by simp
  qed
qed

lemma unat_remain:
  assumes "t \<noteq> 0" and "unat nstart < unat n" and "unat nstart + unat t < 2 ^ 64"
  shows "unat (remain t n nstart) = min (unat t) (unat n - unat nstart)"
proof -
  have le: "nstart \<le> n"
    using assms(2) by (simp add: word_le_nat_alt)
  have diff: "unat (n - nstart) = unat n - unat nstart"
    using le by (rule unat_sub)
  have sum: "unat (nstart + t) = unat nstart + unat t"
    using assms(3) by (rule unat_plus_below)
  show ?thesis
  proof (cases "nstart + t > n")
    case True
    then have "remain t n nstart = n - nstart"
      by (simp add: remain_def)
    moreover have "unat n < unat (nstart + t)"
      using True by (simp only: word_less_nat_alt)
    then have "unat n - unat nstart < unat t"
      using sum assms(2) by arith
    ultimately show ?thesis
      using diff by (simp add: min_def)
  next
    case False
    then have "remain t n nstart = t"
      by (simp add: remain_def)
    moreover have "\<not> unat n < unat (nstart + t)"
      using False by (simp add: word_less_nat_alt)
    then have "unat t \<le> unat n - unat nstart"
      using sum by arith
    ultimately show ?thesis
      by (simp add: min_def)
  qed
qed

section \<open>The staging array\<close>

lemma tile_ok_word:
  assumes "tile_ok inner_block"
  shows "unat (word_of_int inner_block :: size_t) = nat inner_block"
    and "nat (inner_block * inner_block) = nat inner_block * nat inner_block"
    and "8 * (nat inner_block * nat inner_block) < 2 ^ 64"
    and "0 < nat inner_block"
proof -
  from assms have pos: "1 \<le> inner_block"
    and sz: "8 * nat (inner_block * inner_block) < 2 ^ 64"
    by (simp_all add: tile_ok_def addressable_def)
  show sq: "nat (inner_block * inner_block) = nat inner_block * nat inner_block"
    using pos by (simp add: nat_mult_distrib)
  show small: "8 * (nat inner_block * nat inner_block) < 2 ^ 64"
    using sz sq by simp
  show T: "0 < nat inner_block"
    using pos by simp
  have "nat inner_block \<le> nat inner_block * nat inner_block"
    by (rule le_square)
  with small have "nat inner_block < 2 ^ 64"
    by arith
  moreover have "(word_of_int inner_block :: size_t) = of_nat (nat inner_block)"
    using pos by simp
  ultimately show "unat (word_of_int inner_block :: size_t) = nat inner_block"
    by (intro of_nat_inverse) simp_all
qed

lemma staging_index:
  fixes t :: size_t
  assumes "k < unat t" and "l < unat t" and "unat t * unat t < 2 ^ 64"
  shows "unat (of_nat k * t + of_nat l) = k * unat t + l"
    and "k * unat t + l < unat t * unat t"
proof -
  show below: "k * unat t + l < unat t * unat t"
    using cell_below [OF assms(2,1)] .
  then have "k * unat t + l < 2 ^ 64"
    using assms(3) by simp
  moreover have "of_nat k * t + of_nat l = (of_nat (k * unat t + l) :: size_t)"
    by simp
  ultimately show "unat (of_nat k * t + of_nat l) = k * unat t + l"
    by (intro of_nat_inverse) simp_all
qed

lemma staging_index_inj:
  fixes t :: size_t
  assumes "k < unat t" and "l < unat t" and "k' < unat t" and "l' < unat t"
    and "unat t * unat t < 2 ^ 64"
  shows "of_nat k * t + of_nat l = of_nat k' * t + of_nat l' \<longleftrightarrow> k = k' \<and> l = l'"
proof
  assume eq: "of_nat k * t + of_nat l = of_nat k' * t + of_nat l'"
  have "k * unat t + l = unat (of_nat k * t + of_nat l)"
    using assms(1,2,5) by (simp only: staging_index(1))
  also have "\<dots> = unat (of_nat k' * t + of_nat l')"
    by (simp only: eq)
  also have "\<dots> = k' * unat t + l'"
    using assms(3,4,5) by (simp only: staging_index(1))
  finally have e: "k * unat t + l = k' * unat t + l'" .
  have "k = (k * unat t + l) div unat t"
    using cell_div_mod(2) [OF assms(2), of k] by simp
  also have "\<dots> = (k' * unat t + l') div unat t"
    by (simp only: e)
  also have "\<dots> = k'"
    using cell_div_mod(2) [OF assms(4), of k'] by simp
  finally have "k = k'" .
  with e show "k = k' \<and> l = l'"
    by simp
next
  assume "k = k' \<and> l = l'"
  then show "of_nat k * t + of_nat l = of_nat k' * t + of_nat l'"
    by simp
qed

lemma gather_run:
  fixes t :: size_t and s :: "'a frame"
  assumes sq: "unat t * unat t < 2 ^ 64" and len: "len = unat t * unat t"
    and nr: "unat nremain \<le> unat t" and mr: "unat mremain \<le> unat t"
  shows "\<exists>s'. gather len t m input nstart nremain mstart mremain s = Inr s' \<and> out s' = out s \<and>
      (\<forall>l<unat nremain. \<forall>k<unat mremain.
         tmp s' (of_nat k * t + of_nat l) = input ((nstart + of_nat l) * m + mstart + of_nat k))"
proof -
  define val where "val l k = input ((nstart + of_nat l) * m + mstart + of_nat k)" for l k :: nat
  define idx :: "nat \<Rightarrow> nat \<Rightarrow> size_t" where "idx l k = of_nat k * t + of_nat l" for l k
  define P where "P l s' \<longleftrightarrow>
      out s' = out s \<and> (\<forall>l'<l. \<forall>k<unat mremain. tmp s' (idx l' k) = val l' k)"
    for l and s' :: "'a frame"
  have inj: "idx l k = idx l' k' \<longleftrightarrow> k = k' \<and> l = l'"
    if "l < unat nremain" "l' < unat nremain" "k < unat mremain" "k' < unat mremain"
    for l l' k k'
    unfolding idx_def using that nr mr sq by (intro staging_index_inj) simp_all
  have inb: "unat (idx l k) < len" if "l < unat nremain" "k < unat mremain" for l k
  proof -
    have "k < unat t" and "l < unat t"
      using that nr mr by simp_all
    then show ?thesis
      unfolding idx_def len using sq by (simp only: staging_index)
  qed
  have row: "\<exists>s2. for_loop_chk 0 mremain
        (\<lambda>k s. tmp_store len (k * t + of_nat l)
           (input ((nstart + of_nat l) * m + mstart + k)) s) s1 = Inr s2 \<and> P (Suc l) s2"
    if l: "l < unat nremain" and P: "P l s1" for l and s1 :: "'a frame"
  proof -
    define Q where "Q k s' \<longleftrightarrow>
        out s' = out s \<and> (\<forall>l'<l. \<forall>k<unat mremain. tmp s' (idx l' k) = val l' k)
        \<and> (\<forall>k'<k. tmp s' (idx l k') = val l k')" for k and s' :: "'a frame"
    have "\<exists>s2. for_loop_chk 0 mremain
        (\<lambda>k s. tmp_store len (k * t + of_nat l)
           (input ((nstart + of_nat l) * m + mstart + k)) s) s1 = Inr s2 \<and> Q (unat mremain) s2"
    proof (rule for_loop_chk_invariant [where P = Q])
      show "Q 0 s1"
        using P by (simp add: Q_def P_def)
    next
      fix k s'
      assume k: "k < unat mremain" and Q: "Q k s'"
      let ?s = "s'\<lparr>tmp := (tmp s')(idx l k := val l k)\<rparr>"
      have st: "tmp_store len (idx l k) (val l k) s' = Inr ?s"
        using inb [OF l k] by (simp add: tmp_store_def)
      have "Q (Suc k) ?s"
        unfolding Q_def
      proof (intro conjI allI impI)
        show "out ?s = out s"
          using Q by (simp add: Q_def)
      next
        fix l' k'
        assume l': "l' < l" and k': "k' < unat mremain"
        then have "idx l' k' \<noteq> idx l k"
          using inj [of l' l k' k] l k by simp
        then show "tmp ?s (idx l' k') = val l' k'"
          using Q l' k' by (simp add: Q_def)
      next
        fix k'
        assume less: "k' < Suc k"
        show "tmp ?s (idx l k') = val l k'"
        proof (cases "k' = k")
          case True
          then show ?thesis
            by simp
        next
          case False
          with less have lt: "k' < k"
            by simp
          then have "idx l k' \<noteq> idx l k"
            using inj [of l l k' k] l k by simp
          then show ?thesis
            using Q lt by (simp add: Q_def)
        qed
      qed
      with st show "\<exists>s''. tmp_store len (of_nat k * t + of_nat l)
          (input ((nstart + of_nat l) * m + mstart + of_nat k)) s' = Inr s'' \<and> Q (Suc k) s''"
        by (simp add: idx_def val_def)
    qed
    then show ?thesis
      by (auto simp add: Q_def P_def less_Suc_eq)
  qed
  have "\<exists>s'. for_loop_chk 0 nremain (\<lambda>l s.
         let start = (nstart + l) * m + mstart
         in for_loop_chk 0 mremain (\<lambda>k s.
              tmp_store len (k * t + l) (input (start + k)) s) s) s = Inr s'
       \<and> P (unat nremain) s'"
  proof (rule for_loop_chk_invariant [where P = P])
    show "P 0 s"
      by (simp add: P_def)
  next
    fix l s1
    assume "l < unat nremain" and "P l s1"
    then show "\<exists>s'. (let start = (nstart + of_nat l) * m + mstart
         in for_loop_chk 0 mremain (\<lambda>k s.
              tmp_store len (k * t + of_nat l) (input (start + k)) s) s1) = Inr s'
       \<and> P (Suc l) s'"
      using row by (simp add: Let_def)
  qed
  then show ?thesis
    by (simp add: gather_def P_def idx_def val_def)
qed

lemma scatter_total:
  fixes t :: size_t and s :: "'a frame"
  assumes sq: "unat t * unat t < 2 ^ 64" and len: "len = unat t * unat t"
    and nr: "unat nremain \<le> unat t" and mr: "unat mremain \<le> unat t"
  shows "\<exists>s'. scatter len t n nstart nremain mstart mremain s = Inr s' \<and> tmp s' = tmp s"
proof -
  define P where "P k s' \<longleftrightarrow> tmp s' = tmp s" for k :: nat and s' :: "'a frame"
  have "\<exists>s'. for_loop_chk 0 mremain (\<lambda>k s.
         let start = (mstart + k) * n + nstart
         in for_loop_chk 0 nremain (\<lambda>l s.
              case tmp_load len (k * t + l) s of
                Inl e \<Rightarrow> Inl e
              | Inr v \<Rightarrow> Inr (s\<lparr>out := store (start + l) v (out s)\<rparr>)) s) s = Inr s'
       \<and> P (unat mremain) s'"
  proof (rule for_loop_chk_invariant [where P = P])
    show "P 0 s"
      by (simp add: P_def)
  next
    fix k s1
    assume k: "k < unat mremain" and P1: "P k s1"
    have "\<exists>s'. for_loop_chk 0 nremain (\<lambda>l s.
              case tmp_load len (of_nat k * t + l) s of
                Inl e \<Rightarrow> Inl e
              | Inr v \<Rightarrow> Inr (s\<lparr>out := store ((mstart + of_nat k) * n + nstart + l) v (out s)\<rparr>)) s1
           = Inr s' \<and> P (unat nremain) s'"
    proof (rule for_loop_chk_invariant [where P = P])
      show "P 0 s1"
        using P1 by (simp add: P_def)
    next
      fix l s2
      assume l: "l < unat nremain" and P2: "P l s2"
      have "k < unat t" and "l < unat t"
        using k l nr mr by simp_all
      then have "unat (of_nat k * t + of_nat l) < len"
        unfolding len using sq by (simp only: staging_index)
      then show "\<exists>s'. (case tmp_load len (of_nat k * t + of_nat l) s2 of
                Inl e \<Rightarrow> Inl e
              | Inr v \<Rightarrow> Inr (s2\<lparr>out := store ((mstart + of_nat k) * n + nstart + of_nat l) v (out s2)\<rparr>))
           = Inr s' \<and> P (Suc l) s'"
        using P2 by (simp add: tmp_load_def P_def)
    qed
    then show "\<exists>s'. (let start = (mstart + of_nat k) * n + nstart
         in for_loop_chk 0 nremain (\<lambda>l s.
              case tmp_load len (of_nat k * t + l) s of
                Inl e \<Rightarrow> Inl e
              | Inr v \<Rightarrow> Inr (s\<lparr>out := store (start + l) v (out s)\<rparr>)) s1) = Inr s'
       \<and> P (Suc k) s'"
      by (simp add: Let_def P_def)
  qed
  then show ?thesis
    by (simp add: scatter_def P_def)
qed

section \<open>The tiles of a run\<close>

lemma tiles_cover:
  assumes "0 < T"
  shows "N \<le> tiles T N * T"
proof (cases "N mod T = 0")
  case True
  then have "N = N div T * T"
    by (simp add: mod_eq_0_iff_dvd)
  with True show ?thesis
    by (simp add: tiles_def)
next
  case False
  have "N mod T < T"
    using assms by simp
  then have "N \<le> N div T * T + T"
    using div_mult_mod_eq [of N T] by linarith
  then have "N \<le> Suc (N div T) * T"
    by simp
  with False show ?thesis
    by (simp add: tiles_def)
qed

lemma tile_bounds:
  fixes n :: size_t
  assumes "t \<noteq> 0" and "k < tiles (unat t) (unat n)"
  shows "unat (tile_start t (of_nat k)) = k * unat t"
    and "k * unat t < unat n"
    and "unat (remain t n (tile_start t (of_nat k))) \<le> unat t"
    and "0 < unat (remain t n (tile_start t (of_nat k)))"
proof -
  have T: "0 < unat t"
    using assms(1) by (simp add: unat_gt_0)
  show start: "unat (tile_start t (of_nat k)) = k * unat t"
    using assms by (rule unat_tile_start)
  show below: "k * unat t < unat n"
    using T assms(2) by (rule tile_start_below)
  from below start have less: "unat (tile_start t (of_nat k)) < unat n"
    by simp
  show "unat (remain t n (tile_start t (of_nat k))) \<le> unat t"
    using assms(1) less by (rule unat_remain_le(1))
  show "0 < unat (remain t n (tile_start t (of_nat k)))"
    using assms(1) less by (rule unat_remain_le(2))
qed

lemma tile_extent:
  fixes n :: size_t
  assumes "t \<noteq> 0" and "k < tiles (unat t) (unat n)" and "unat n + unat t < 2 ^ 64"
  shows "unat (remain t n (tile_start t (of_nat k))) = min (unat t) (unat n - k * unat t)"
proof -
  have start: "unat (tile_start t (of_nat k)) = k * unat t"
    and below: "k * unat t < unat n"
    using assms(1,2) by (rule tile_bounds)+
  from below start have less: "unat (tile_start t (of_nat k)) < unat n"
    by simp
  have "unat (tile_start t (of_nat k)) + unat t < 2 ^ 64"
    using less assms(3) by arith
  with assms(1) less
  have "unat (remain t n (tile_start t (of_nat k)))
      = min (unat t) (unat n - unat (tile_start t (of_nat k)))"
    by (rule unat_remain)
  with start show ?thesis
    by simp
qed

text \<open>
  The rule of the tile loops: \<open>P nb\<close> holds before the row of tiles \<open>nb\<close>, \<open>Q nb mb\<close>
  before the tile \<open>(nb, mb)\<close>.
\<close>

lemma gg_fast_transpose_tiles:
  fixes n m t :: size_t and tmp0 :: "'a buffer"
  assumes t: "t = word_of_int inner_block" and len: "len = nat (inner_block * inner_block)"
    and nz: "t \<noteq> 0"
    and init: "P 0 \<lparr>tmp = tmp0, out = output\<rparr>"
    and enter: "\<And>nb s. nb < tiles (unat t) (unat n) \<Longrightarrow> P nb s \<Longrightarrow> Q nb 0 s"
    and leave: "\<And>nb s. nb < tiles (unat t) (unat n) \<Longrightarrow> Q nb (tiles (unat t) (unat m)) s
        \<Longrightarrow> P (Suc nb) s"
    and tile: "\<And>nb mb s. nb < tiles (unat t) (unat n) \<Longrightarrow> mb < tiles (unat t) (unat m)
        \<Longrightarrow> Q nb mb s
        \<Longrightarrow> \<exists>s1 s2.
              gather len t m input (tile_start t (of_nat nb))
                (remain t n (tile_start t (of_nat nb)))
                (tile_start t (of_nat mb)) (remain t m (tile_start t (of_nat mb))) s = Inr s1
            \<and> scatter len t n (tile_start t (of_nat nb))
                (remain t n (tile_start t (of_nat nb)))
                (tile_start t (of_nat mb)) (remain t m (tile_start t (of_nat mb))) s1 = Inr s2
            \<and> Q nb (Suc mb) s2"
  shows "\<exists>s'. gg_fast_transpose inner_block n m input output tmp0 = Inr s'
      \<and> P (tiles (unat t) (unat n)) s'"
proof -
  have nb_eq: "unat (blocks t n) = tiles (unat t) (unat n)"
    using nz by (rule unat_blocks)
  have mb_eq: "unat (blocks t m) = tiles (unat t) (unat m)"
    using nz by (rule unat_blocks)
  let ?tile = "\<lambda>nstart nremain mb s.
      let mstart = tile_start t mb;
          mremain = remain t m mstart
      in case gather len t m input nstart nremain mstart mremain s of
           Inl e \<Rightarrow> Inl e
         | Inr s \<Rightarrow> scatter len t n nstart nremain mstart mremain s"
  let ?row = "\<lambda>nb s.
      let nstart = tile_start t nb;
          nremain = remain t n nstart
      in for_loop_chk 0 (blocks t m) (?tile nstart nremain) s"
  have "\<exists>s'. for_loop_chk 0 (blocks t n) ?row \<lparr>tmp = tmp0, out = output\<rparr> = Inr s'
      \<and> P (unat (blocks t n)) s'"
  proof (rule for_loop_chk_invariant [where P = P])
    show "P 0 \<lparr>tmp = tmp0, out = output\<rparr>"
      by (rule init)
  next
    fix nb s
    assume "nb < unat (blocks t n)" and P: "P nb s"
    then have nb: "nb < tiles (unat t) (unat n)"
      by (simp only: nb_eq)
    have "\<exists>s'. for_loop_chk 0 (blocks t m)
        (?tile (tile_start t (of_nat nb)) (remain t n (tile_start t (of_nat nb)))) s = Inr s'
        \<and> Q nb (unat (blocks t m)) s'"
    proof (rule for_loop_chk_invariant [where P = "Q nb"])
      show "Q nb 0 s"
        using nb P by (rule enter)
    next
      fix mb s1
      assume "mb < unat (blocks t m)" and Q: "Q nb mb s1"
      then have mb: "mb < tiles (unat t) (unat m)"
        by (simp only: mb_eq)
      from tile [OF nb mb Q]
      show "\<exists>s'. ?tile (tile_start t (of_nat nb)) (remain t n (tile_start t (of_nat nb)))
          (of_nat mb) s1 = Inr s' \<and> Q nb (Suc mb) s'"
        by (auto simp add: Let_def)
    qed
    then obtain s' where
      run: "for_loop_chk 0 (blocks t m)
        (?tile (tile_start t (of_nat nb)) (remain t n (tile_start t (of_nat nb)))) s = Inr s'"
      and Q': "Q nb (tiles (unat t) (unat m)) s'"
      unfolding mb_eq by blast
    from nb Q' have "P (Suc nb) s'"
      by (rule leave)
    with run show "\<exists>s'. ?row (of_nat nb) s = Inr s' \<and> P (Suc nb) s'"
      by (simp only: Let_def) blast
  qed
  then have "\<exists>s'. for_loop_chk 0 (blocks t n) ?row \<lparr>tmp = tmp0, out = output\<rparr> = Inr s'
      \<and> P (tiles (unat t) (unat n)) s'"
    by (simp only: nb_eq)
  then show ?thesis
    unfolding gg_fast_transpose_def t len Let_def .
qed

lemma fast_transpose_total:
  fixes n m :: size_t and tmp0 :: "'a buffer"
  assumes "tile_ok inner_block"
  shows "\<exists>s'. gg_fast_transpose inner_block n m input output tmp0 = Inr s'"
proof -
  define t :: size_t where "t = word_of_int inner_block"
  define len where "len = nat (inner_block * inner_block)"
  have T: "unat t = nat inner_block"
    unfolding t_def using assms by (rule tile_ok_word(1))
  have "0 < unat t"
    using tile_ok_word(4) [OF assms] T by simp
  then have nz: "t \<noteq> 0"
    by (simp add: unat_gt_0)
  have sq: "unat t * unat t < 2 ^ 64"
    using tile_ok_word(3) [OF assms] T by simp
  have len': "len = unat t * unat t"
    using tile_ok_word(2) [OF assms] T by (simp add: len_def)
  have "\<exists>s'. gg_fast_transpose inner_block n m input output tmp0 = Inr s'
      \<and> (\<lambda>nb s. True) (tiles (unat t) (unat n)) s'"
  proof (rule gg_fast_transpose_tiles [where Q = "\<lambda>nb mb s. True", OF t_def len_def nz])
    fix nb mb and s :: "'a frame"
    assume nb: "nb < tiles (unat t) (unat n)" and mb: "mb < tiles (unat t) (unat m)"
    let ?nstart = "tile_start t (of_nat nb)" and ?mstart = "tile_start t (of_nat mb)"
    have nr: "unat (remain t n ?nstart) \<le> unat t"
      using nz nb by (rule tile_bounds(3))
    have mr: "unat (remain t m ?mstart) \<le> unat t"
      using nz mb by (rule tile_bounds(3))
    from gather_run [OF sq len' nr mr] obtain s1 where
      "gather len t m input ?nstart (remain t n ?nstart) ?mstart (remain t m ?mstart) s = Inr s1"
      by blast
    moreover from scatter_total [OF sq len' nr mr] obtain s2 where
      "scatter len t n ?nstart (remain t n ?nstart) ?mstart (remain t m ?mstart) s1 = Inr s2"
      by blast
    ultimately show "\<exists>s1 s2.
        gather len t m input ?nstart (remain t n ?nstart) ?mstart (remain t m ?mstart) s = Inr s1
      \<and> scatter len t n ?nstart (remain t n ?nstart) ?mstart (remain t m ?mstart) s1 = Inr s2
      \<and> True"
      by blast
  qed simp_all
  then show ?thesis
    by blast
qed

lemma matrix_ok_extent:
  fixes n m t :: size_t
  assumes "matrix_ok n m" and "0 < unat m" and "8 * (unat t * unat t) < 2 ^ 64"
  shows "unat n + unat t < 2 ^ 64" and "unat n * unat m < 2 ^ 64"
proof -
  from assms(1) have NM: "8 * (unat n * unat m) < 2 ^ 64"
    by (simp add: matrix_ok_def addressable_def)
  then show "unat n * unat m < 2 ^ 64"
    by arith
  have "unat n * 1 \<le> unat n * unat m"
    using assms(2) by (intro mult_le_mono2) simp
  then have "unat n \<le> unat n * unat m"
    by simp
  moreover have "unat t \<le> unat t * unat t"
    by (rule le_square)
  ultimately show "unat n + unat t < 2 ^ 64"
    using NM assms(3) by arith
qed

section \<open>The output of the transposers\<close>

lemma store_written_cells:
  fixes n m :: size_t
  assumes "i < unat n" and "j < unat m" and "unat n * unat m < 2 ^ 64"
    and "cells h = written_cells (unat n) (unat m) input W c0"
    and "\<And>i' j'. i' < unat n \<Longrightarrow> j' < unat m \<Longrightarrow> W' i' j' = (W i' j' \<or> (i' = i \<and> j' = j))"
  shows "cells (store (of_nat j * n + of_nat i) (input (of_nat i * m + of_nat j)) h)
     = written_cells (unat n) (unat m) input W' c0"
proof -
  have "cells (store (of_nat j * n + of_nat i) (input (of_nat i * m + of_nat j)) h)
      = (written_cells (unat n) (unat m) input W c0)
          (of_nat j * n + of_nat i := input (of_nat i * m + of_nat j))"
    by (simp add: store_def assms(4))
  also have "\<dots> = written_cells (unat n) (unat m) input
      (\<lambda>i' j'. W i' j' \<or> (i' = i \<and> j' = j)) c0"
    using written_cells_store [OF assms(1,2,3), of input W c0] by simp
  also have "\<dots> = written_cells (unat n) (unat m) input W' c0"
    by (rule written_cells_cong) (simp add: assms(5))
  finally show ?thesis .
qed

lemma scatter_store:
  fixes n m :: size_t
  assumes "unat nstart + l < unat n" and "unat mstart + k < unat m"
    and "unat n * unat m < 2 ^ 64"
    and "cells h = written_cells (unat n) (unat m) input W c0"
    and "\<And>i' j'. i' < unat n \<Longrightarrow> j' < unat m
        \<Longrightarrow> W' i' j' = (W i' j' \<or> (i' = unat nstart + l \<and> j' = unat mstart + k))"
  shows "cells (store ((mstart + of_nat k) * n + nstart + of_nat l)
        (input ((nstart + of_nat l) * m + mstart + of_nat k)) h)
     = written_cells (unat n) (unat m) input W' c0"
  using store_written_cells [OF assms] by (simp add: add.assoc)

lemma naive_transpose_cells:
  fixes n m :: size_t
  assumes NM: "unat n * unat m < 2 ^ 64"
  shows "cells (gg_naive_transpose n m input (output :: 'a heap))
     = written_cells (unat n) (unat m) input (\<lambda>i j. True) (cells output)"
proof -
  define P where "P k h \<longleftrightarrow>
      cells h = written_cells (unat n) (unat m) input (\<lambda>i j. i < k) (cells output)"
    for k and h :: "'a heap"
  have "P (unat n) (for_loop 0 n (\<lambda>i.
       for_loop 0 m (\<lambda>j. store (j * n + i) (input (i * m + j)))) output)"
  proof (rule for_loop_invariant [where P = P])
    show "P 0 output"
      by (simp add: P_def written_cells_none)
  next
    fix i and h :: "'a heap"
    assume i: "i < unat n" and Pi: "P i h"
    define Q where "Q l h' \<longleftrightarrow>
        cells h' = written_cells (unat n) (unat m) input
          (\<lambda>i' j'. i' < i \<or> (i' = i \<and> j' < l)) (cells output)"
      for l and h' :: "'a heap"
    have "Q (unat m) (for_loop 0 m
        (\<lambda>j. store (j * n + of_nat i) (input (of_nat i * m + j))) h)"
    proof (rule for_loop_invariant [where P = Q])
      show "Q 0 h"
        using Pi by (simp add: Q_def P_def)
    next
      fix j and h' :: "'a heap"
      assume j: "j < unat m" and Q: "Q j h'"
      show "Q (Suc j) (store (of_nat j * n + of_nat i) (input (of_nat i * m + of_nat j)) h')"
        unfolding Q_def
      proof (rule store_written_cells [OF i j NM])
        show "cells h' = written_cells (unat n) (unat m) input
            (\<lambda>i' j'. i' < i \<or> (i' = i \<and> j' < j)) (cells output)"
          using Q by (simp add: Q_def)
      next
        fix i' j' :: nat
        show "(i' < i \<or> (i' = i \<and> j' < Suc j))
            = ((i' < i \<or> (i' = i \<and> j' < j)) \<or> (i' = i \<and> j' = j))"
          by auto
      qed
    qed
    then have "cells (for_loop 0 m
        (\<lambda>j. store (j * n + of_nat i) (input (of_nat i * m + j))) h)
      = written_cells (unat n) (unat m) input
          (\<lambda>i' j'. i' < i \<or> (i' = i \<and> j' < unat m)) (cells output)"
      by (simp add: Q_def)
    also have "\<dots> = written_cells (unat n) (unat m) input (\<lambda>i' j'. i' < Suc i) (cells output)"
      by (rule written_cells_cong) auto
    finally show "P (Suc i) (for_loop 0 m
        (\<lambda>j. store (j * n + of_nat i) (input (of_nat i * m + j))) h)"
      by (simp add: P_def)
  qed
  then have "cells (gg_naive_transpose n m input output)
      = written_cells (unat n) (unat m) input (\<lambda>i j. i < unat n) (cells output)"
    by (simp add: P_def gg_naive_transpose_def)
  also have "\<dots> = written_cells (unat n) (unat m) input (\<lambda>i j. True) (cells output)"
    by (rule written_cells_cong) simp
  finally show ?thesis .
qed

lemma naive_transpose_empty:
  fixes n m :: size_t
  assumes "n = 0 \<or> m = 0"
  shows "gg_naive_transpose n m input output = output"
proof (cases "n = 0")
  case True
  then show ?thesis
    by (simp add: gg_naive_transpose_def for_loop.simps [of 0 0])
next
  case False
  with assms have m: "m = 0"
    by simp
  have "(\<lambda>k h. h = output) (unat n) (for_loop 0 n (\<lambda>i.
       for_loop 0 m (\<lambda>j. store (j * n + i) (input (i * m + j)))) output)"
    by (rule for_loop_invariant) (simp_all add: m for_loop.simps [of 0 0])
  then show ?thesis
    by (simp add: gg_naive_transpose_def)
qed

lemma scatter_cells:
  fixes t n m :: size_t and s :: "'a frame"
  assumes sq: "unat t * unat t < 2 ^ 64" and len: "len = unat t * unat t"
    and nr: "unat nremain \<le> unat t" and mr: "unat mremain \<le> unat t"
    and NM: "unat n * unat m < 2 ^ 64"
    and rows: "unat nstart + unat nremain \<le> unat n"
    and cols: "unat mstart + unat mremain \<le> unat m"
    and staged: "\<And>l k. l < unat nremain \<Longrightarrow> k < unat mremain \<Longrightarrow>
        tmp s (of_nat k * t + of_nat l) = input ((nstart + of_nat l) * m + mstart + of_nat k)"
    and cells: "cells (out s) = written_cells (unat n) (unat m) input W c0"
  shows "\<exists>s'. scatter len t n nstart nremain mstart mremain s = Inr s'
     \<and> cells (out s') = written_cells (unat n) (unat m) input
         (\<lambda>i j. W i j \<or> (unat nstart \<le> i \<and> i < unat nstart + unat nremain
            \<and> unat mstart \<le> j \<and> j < unat mstart + unat mremain)) c0"
proof -
  define tile where "tile k l i j \<longleftrightarrow>
      (unat nstart \<le> i \<and> i < unat nstart + unat nremain \<and> unat mstart \<le> j \<and> j < unat mstart + k)
      \<or> (j = unat mstart + k \<and> unat nstart \<le> i \<and> i < unat nstart + l)" for k l i j :: nat
  define P where "P k s' \<longleftrightarrow> tmp s' = tmp s
      \<and> cells (out s') = written_cells (unat n) (unat m) input (\<lambda>i j. W i j \<or> tile k 0 i j) c0"
    for k and s' :: "'a frame"
  have "\<exists>s'. for_loop_chk 0 mremain (\<lambda>k s.
         let start = (mstart + k) * n + nstart
         in for_loop_chk 0 nremain (\<lambda>l s.
              case tmp_load len (k * t + l) s of
                Inl e \<Rightarrow> Inl e
              | Inr v \<Rightarrow> Inr (s\<lparr>out := store (start + l) v (out s)\<rparr>)) s) s = Inr s'
       \<and> P (unat mremain) s'"
  proof (rule for_loop_chk_invariant [where P = P])
    have "written_cells (unat n) (unat m) input W c0
        = written_cells (unat n) (unat m) input (\<lambda>i j. W i j \<or> tile 0 0 i j) c0"
      by (rule written_cells_cong) (auto simp add: tile_def)
    with cells show "P 0 s"
      by (simp add: P_def)
  next
    fix k and s1 :: "'a frame"
    assume k: "k < unat mremain" and P1: "P k s1"
    define Q where "Q l s' \<longleftrightarrow> tmp s' = tmp s
        \<and> cells (out s') = written_cells (unat n) (unat m) input (\<lambda>i j. W i j \<or> tile k l i j) c0"
      for l and s' :: "'a frame"
    have "\<exists>s'. for_loop_chk 0 nremain (\<lambda>l s.
              case tmp_load len (of_nat k * t + l) s of
                Inl e \<Rightarrow> Inl e
              | Inr v \<Rightarrow> Inr (s\<lparr>out := store ((mstart + of_nat k) * n + nstart + l) v (out s)\<rparr>)) s1
           = Inr s' \<and> Q (unat nremain) s'"
    proof (rule for_loop_chk_invariant [where P = Q])
      show "Q 0 s1"
        using P1 by (simp add: Q_def P_def)
    next
      fix l and s2 :: "'a frame"
      assume l: "l < unat nremain" and Q2: "Q l s2"
      have "k < unat t" and "l < unat t"
        using k l nr mr by simp_all
      then have inb: "unat (of_nat k * t + of_nat l) < len"
        unfolding len using sq by (simp only: staging_index)
      have i: "unat nstart + l < unat n"
        using l rows by arith
      have j: "unat mstart + k < unat m"
        using k cols by arith
      have "cells (store ((mstart + of_nat k) * n + nstart + of_nat l)
            (input ((nstart + of_nat l) * m + mstart + of_nat k)) (out s2))
          = written_cells (unat n) (unat m) input (\<lambda>i j. W i j \<or> tile k (Suc l) i j) c0"
      proof (rule scatter_store [OF i j NM])
        show "cells (out s2)
            = written_cells (unat n) (unat m) input (\<lambda>i j. W i j \<or> tile k l i j) c0"
          using Q2 by (simp add: Q_def)
      next
        fix i' j' :: nat
        show "(W i' j' \<or> tile k (Suc l) i' j')
            = ((W i' j' \<or> tile k l i' j') \<or> (i' = unat nstart + l \<and> j' = unat mstart + k))"
          by (auto simp add: tile_def)
      qed
      then have "Q (Suc l) (s2\<lparr>out := store ((mstart + of_nat k) * n + nstart + of_nat l)
            (tmp s2 (of_nat k * t + of_nat l)) (out s2)\<rparr>)"
        using Q2 by (simp add: Q_def staged [OF l k])
      then show "\<exists>s'. (case tmp_load len (of_nat k * t + of_nat l) s2 of
                Inl e \<Rightarrow> Inl e
              | Inr v \<Rightarrow> Inr (s2\<lparr>out := store ((mstart + of_nat k) * n + nstart + of_nat l) v (out s2)\<rparr>))
           = Inr s' \<and> Q (Suc l) s'"
        using inb by (simp add: tmp_load_def)
    qed
    then obtain s' where run: "for_loop_chk 0 nremain (\<lambda>l s.
              case tmp_load len (of_nat k * t + l) s of
                Inl e \<Rightarrow> Inl e
              | Inr v \<Rightarrow> Inr (s\<lparr>out := store ((mstart + of_nat k) * n + nstart + l) v (out s)\<rparr>)) s1
           = Inr s'"
      and Q': "Q (unat nremain) s'"
      by blast
    have "written_cells (unat n) (unat m) input (\<lambda>i j. W i j \<or> tile k (unat nremain) i j) c0
        = written_cells (unat n) (unat m) input (\<lambda>i j. W i j \<or> tile (Suc k) 0 i j) c0"
      by (rule written_cells_cong) (auto simp add: tile_def)
    with Q' have "P (Suc k) s'"
      by (simp add: Q_def P_def)
    with run show "\<exists>s'. (let start = (mstart + of_nat k) * n + nstart
         in for_loop_chk 0 nremain (\<lambda>l s.
              case tmp_load len (of_nat k * t + l) s of
                Inl e \<Rightarrow> Inl e
              | Inr v \<Rightarrow> Inr (s\<lparr>out := store (start + l) v (out s)\<rparr>)) s1) = Inr s'
       \<and> P (Suc k) s'"
      by (simp add: Let_def)
  qed
  then obtain s' where run: "scatter len t n nstart nremain mstart mremain s = Inr s'"
    and P': "P (unat mremain) s'"
    unfolding scatter_def by blast
  have "written_cells (unat n) (unat m) input (\<lambda>i j. W i j \<or> tile (unat mremain) 0 i j) c0
      = written_cells (unat n) (unat m) input
         (\<lambda>i j. W i j \<or> (unat nstart \<le> i \<and> i < unat nstart + unat nremain
            \<and> unat mstart \<le> j \<and> j < unat mstart + unat mremain)) c0"
    by (rule written_cells_cong) (auto simp add: tile_def)
  with P' run show ?thesis
    by (simp add: P_def)
qed

lemma tile_step_cover:
  fixes a b T N M i j :: nat
  assumes "i < N" and "j < M" and "a < N" and "b < M"
  shows "((i < a \<or> (i < a + T \<and> j < b))
      \<or> (a \<le> i \<and> i < a + min T (N - a) \<and> b \<le> j \<and> j < b + min T (M - b)))
    = (i < a \<or> (i < a + T \<and> j < b + T))"
  using assms by (auto simp add: min_def)

lemma fast_transpose_cells:
  fixes n m :: size_t and tmp0 :: "'a buffer"
  assumes "tile_ok inner_block" and "matrix_ok n m"
  shows "\<exists>s'. gg_fast_transpose inner_block n m input output tmp0 = Inr s'
     \<and> cells (out s') = written_cells (unat n) (unat m) input (\<lambda>i j. True) (cells output)
     \<and> (n = 0 \<or> m = 0 \<longrightarrow> out s' = output)"
proof -
  define t :: size_t where "t = word_of_int inner_block"
  define len where "len = nat (inner_block * inner_block)"
  have T: "unat t = nat inner_block"
    unfolding t_def using assms(1) by (rule tile_ok_word(1))
  have T0: "0 < unat t"
    using tile_ok_word(4) [OF assms(1)] T by simp
  then have nz: "t \<noteq> 0"
    by (simp add: unat_gt_0)
  have sq8: "8 * (unat t * unat t) < 2 ^ 64"
    using tile_ok_word(3) [OF assms(1)] T by simp
  then have sq: "unat t * unat t < 2 ^ 64"
    by arith
  have len': "len = unat t * unat t"
    using tile_ok_word(2) [OF assms(1)] T by (simp add: len_def)
  have NM: "unat n * unat m < 2 ^ 64"
    using assms(2) unfolding matrix_ok_def addressable_def by arith
  have mat: "matrix_ok m n"
    using assms(2) by (simp add: matrix_ok_def mult.commute [of "unat m" "unat n"])
  define P where "P nb s \<longleftrightarrow>
      cells (out s) = written_cells (unat n) (unat m) input
        (\<lambda>i j. i < nb * unat t) (cells output)
      \<and> (n = 0 \<or> m = 0 \<longrightarrow> out s = output)"
    for nb and s :: "'a frame"
  define Q where "Q nb mb s \<longleftrightarrow>
      cells (out s) = written_cells (unat n) (unat m) input
        (\<lambda>i j. i < nb * unat t \<or> (i < nb * unat t + unat t \<and> j < mb * unat t)) (cells output)
      \<and> (n = 0 \<or> m = 0 \<longrightarrow> out s = output)"
    for nb mb and s :: "'a frame"
  have "\<exists>s'. gg_fast_transpose inner_block n m input output tmp0 = Inr s'
      \<and> P (tiles (unat t) (unat n)) s'"
  proof (rule gg_fast_transpose_tiles [where P = P and Q = Q, OF t_def len_def nz])
    show "P 0 \<lparr>tmp = tmp0, out = output\<rparr>"
      by (simp add: P_def written_cells_none)
  next
    fix nb and s :: "'a frame"
    assume "P nb s"
    then show "Q nb 0 s"
      by (simp add: P_def Q_def)
  next
    fix nb and s :: "'a frame"
    assume Q: "Q nb (tiles (unat t) (unat m)) s"
    have "written_cells (unat n) (unat m) input
        (\<lambda>i j. i < nb * unat t
           \<or> (i < nb * unat t + unat t \<and> j < tiles (unat t) (unat m) * unat t)) (cells output)
      = written_cells (unat n) (unat m) input (\<lambda>i j. i < Suc nb * unat t) (cells output)"
    proof (rule written_cells_cong)
      fix i j :: nat
      assume "j < unat m"
      moreover have "unat m \<le> tiles (unat t) (unat m) * unat t"
        using T0 by (rule tiles_cover)
      ultimately have "j < tiles (unat t) (unat m) * unat t"
        by simp
      then show "(i < nb * unat t
           \<or> (i < nb * unat t + unat t \<and> j < tiles (unat t) (unat m) * unat t))
          = (i < Suc nb * unat t)"
        by auto
    qed
    with Q show "P (Suc nb) s"
      by (simp add: P_def Q_def)
  next
    fix nb mb and s :: "'a frame"
    assume nb: "nb < tiles (unat t) (unat n)" and mb: "mb < tiles (unat t) (unat m)"
      and Q: "Q nb mb s"
    let ?ns = "tile_start t (of_nat nb)" and ?ms = "tile_start t (of_nat mb)"
    let ?nr = "remain t n ?ns" and ?mr = "remain t m ?ms"
    have ns: "unat ?ns = nb * unat t" and ns_less: "nb * unat t < unat n"
      using nz nb by (rule tile_bounds)+
    have ms: "unat ?ms = mb * unat t" and ms_less: "mb * unat t < unat m"
      using nz mb by (rule tile_bounds)+
    have N: "0 < unat n" and M: "0 < unat m"
      using ns_less ms_less by simp_all
    have NT: "unat n + unat t < 2 ^ 64"
      using assms(2) M sq8 by (rule matrix_ok_extent(1))
    have MT: "unat m + unat t < 2 ^ 64"
      using mat N sq8 by (rule matrix_ok_extent(1))
    have nr: "unat ?nr = min (unat t) (unat n - nb * unat t)"
      using nz nb NT by (rule tile_extent)
    have mr: "unat ?mr = min (unat t) (unat m - mb * unat t)"
      using nz mb MT by (rule tile_extent)
    have nr_le: "unat ?nr \<le> unat t" and mr_le: "unat ?mr \<le> unat t"
      using nr mr by simp_all
    have rows: "unat ?ns + unat ?nr \<le> unat n"
      using ns nr ns_less by arith
    have cols: "unat ?ms + unat ?mr \<le> unat m"
      using ms mr ms_less by arith
    from gather_run [OF sq len' nr_le mr_le, of m input ?ns ?ms s]
    obtain s1 where g: "gather len t m input ?ns ?nr ?ms ?mr s = Inr s1"
      and keeps: "out s1 = out s"
      and staged: "\<And>l k. l < unat ?nr \<Longrightarrow> k < unat ?mr \<Longrightarrow>
        tmp s1 (of_nat k * t + of_nat l) = input ((?ns + of_nat l) * m + ?ms + of_nat k)"
      by blast
    have c1: "cells (out s1) = written_cells (unat n) (unat m) input
        (\<lambda>i j. i < nb * unat t \<or> (i < nb * unat t + unat t \<and> j < mb * unat t)) (cells output)"
      using Q keeps by (simp add: Q_def)
    from scatter_cells [OF sq len' nr_le mr_le NM rows cols staged c1]
    obtain s2 where sc: "scatter len t n ?ns ?nr ?ms ?mr s1 = Inr s2"
      and c2: "cells (out s2) = written_cells (unat n) (unat m) input
        (\<lambda>i j. (i < nb * unat t \<or> (i < nb * unat t + unat t \<and> j < mb * unat t))
           \<or> (unat ?ns \<le> i \<and> i < unat ?ns + unat ?nr
               \<and> unat ?ms \<le> j \<and> j < unat ?ms + unat ?mr)) (cells output)"
      by blast
    have "written_cells (unat n) (unat m) input
        (\<lambda>i j. (i < nb * unat t \<or> (i < nb * unat t + unat t \<and> j < mb * unat t))
           \<or> (unat ?ns \<le> i \<and> i < unat ?ns + unat ?nr
               \<and> unat ?ms \<le> j \<and> j < unat ?ms + unat ?mr)) (cells output)
      = written_cells (unat n) (unat m) input
        (\<lambda>i j. i < nb * unat t \<or> (i < nb * unat t + unat t \<and> j < Suc mb * unat t))
        (cells output)"
    proof (rule written_cells_cong)
      fix i j :: nat
      assume i: "i < unat n" and j: "j < unat m"
      show "((i < nb * unat t \<or> (i < nb * unat t + unat t \<and> j < mb * unat t))
           \<or> (unat ?ns \<le> i \<and> i < unat ?ns + unat ?nr
               \<and> unat ?ms \<le> j \<and> j < unat ?ms + unat ?mr))
          = (i < nb * unat t \<or> (i < nb * unat t + unat t \<and> j < Suc mb * unat t))"
        using tile_step_cover [OF i j ns_less ms_less, of "unat t"]
        by (simp only: ns ms nr mr mult_Suc add.commute [of "unat t" "mb * unat t"])
    qed
    with c2 have c3: "cells (out s2) = written_cells (unat n) (unat m) input
        (\<lambda>i j. i < nb * unat t \<or> (i < nb * unat t + unat t \<and> j < Suc mb * unat t))
        (cells output)"
      by simp
    have "n \<noteq> 0" and "m \<noteq> 0"
      using N M by (simp_all add: unat_gt_0)
    with c3 have "Q nb (Suc mb) s2"
      by (simp add: Q_def)
    with g sc show "\<exists>s1 s2. gather len t m input ?ns ?nr ?ms ?mr s = Inr s1
        \<and> scatter len t n ?ns ?nr ?ms ?mr s1 = Inr s2 \<and> Q nb (Suc mb) s2"
      by blast
  qed
  then obtain s' where run: "gg_fast_transpose inner_block n m input output tmp0 = Inr s'"
    and P': "P (tiles (unat t) (unat n)) s'"
    by blast
  have "written_cells (unat n) (unat m) input
      (\<lambda>i j. i < tiles (unat t) (unat n) * unat t) (cells output)
    = written_cells (unat n) (unat m) input (\<lambda>i j. True) (cells output)"
  proof (rule written_cells_cong)
    fix i j :: nat
    assume "i < unat n"
    moreover have "unat n \<le> tiles (unat t) (unat n) * unat t"
      using T0 by (rule tiles_cover)
    ultimately show "(i < tiles (unat t) (unat n) * unat t) = True"
      by simp
  qed
  with P' run show ?thesis
    by (simp add: P_def)
qed

section \<open>The claims\<close>

text \<open>
  C6. The routine emitted by \<^verbatim>\<open>naive_transpose\<close> is a function of
  \<open>(n, m, input, output)\<close> whose body is the one statement
  \<^verbatim>\<open>output[j * n + i] = input[i * m + j]\<close> in the loop nest over \<open>i\<close> and \<open>j\<close>; run on
  any arguments it performs exactly the stores \<^verbatim>\<open>output[j*n + i] = input[i*m + j]\<close> for
  every \<open>(i, j)\<close> in \<open>[0,n) \<times> [0,m)\<close>, and it performs no store and leaves the output
  as it was when \<open>n = 0\<close> or \<open>m = 0\<close>.
\<close>

theorem naive_transpose_stores:
  "gg_naive_transpose n m input output
     = \<lparr>cells = replay (spec_transpose_stores n m input) (cells output),
        stores = stores output @ spec_transpose_stores n m input\<rparr>
   \<and> gg_naive_transpose 0 m input output = output
   \<and> gg_naive_transpose n 0 input output = output
   \<and> block_headers (fst naive_transpose)
       = [snd naive_transpose, ''for (size_t i = 0; i < n; i++)'', ''for (size_t j = 0; j < m; j++)'']
   \<and> written (fst naive_transpose) = [''output[j * n + i] = input[i * m + j]'']"
proof -
  have run: "gg_naive_transpose n m input output
     = \<lparr>cells = replay (spec_transpose_stores n m input) (cells output),
        stores = stores output @ spec_transpose_stores n m input\<rparr>" for n m
    unfolding gg_naive_transpose_def spec_transpose_stores_def for_loop_fold
    by (simp only: fold_store_nested fold_store_replay)
  have zn: "gg_naive_transpose 0 m input output = output"
    by (simp add: run spec_transpose_stores_def counter_values_0 replay_def)
  have zm: "gg_naive_transpose n 0 input output = output"
    by (simp add: run spec_transpose_stores_def counter_values_0 concat_map_Nil replay_def)
  have heads: "block_headers (fst naive_transpose)
       = [snd naive_transpose, ''for (size_t i = 0; i < n; i++)'', ''for (size_t j = 0; j < m; j++)'']"
    by (simp add: naive_transpose_def Let_def)
  have body: "written (fst naive_transpose) = [''output[j * n + i] = input[i * m + j]'']"
    by (simp add: naive_transpose_def Let_def)
  from run zn zm heads body show ?thesis
    by blast
qed

text \<open>
  C8. \<^verbatim>\<open>block_copy\<close> emits a function of
  \<open>(n, m, input, is, output, os, trans)\<close> whose body is the loop over \<open>i\<close> with the
  two shifts \<^verbatim>\<open>out_shift = i * os\<close> and \<^verbatim>\<open>inp_shift = i * is\<close> and, in the loop over
  \<open>j\<close>, the one store \<^verbatim>\<open>output[out_shift + j] = input[inp_shift + j]\<close>. Run on any
  arguments the routine performs exactly the stores
  \<^verbatim>\<open>output[i*os + j] = input[i*is + j]\<close> for every \<open>i\<close> in \<open>[0,n)\<close> and \<open>j\<close> in
  \<open>[0,m)\<close>, row by row; two runs that differ only in the \<^verbatim>\<open>trans\<close> flag end in the
  same output, and no line or loop header of the emitted body mentions \<^verbatim>\<open>trans\<close>.
\<close>

theorem block_copy_ignores_trans:
  "block_copy_run n m input is output os trans_flag
     = \<lparr>cells = replay (spec_copy_stores n m input is os) (cells output),
        stores = stores output @ spec_copy_stores n m input is os\<rparr>
   \<and> block_copy_run n m input is output os trans_flag
       = block_copy_run n m input is output os trans_flag'
   \<and> filter (contains_str ''trans'')
        (written (fst block_copy) @ tl (block_headers (fst block_copy))) = []
   \<and> snd block_copy = ''void block_copy(size_t n, size_t m, const double* __restrict__ input, size_t is, double* __restrict__ output, size_t os, const int trans)''
   \<and> block_headers (fst block_copy)
       = [snd block_copy, ''for (size_t i = 0; i < n; i++)'', ''for (size_t j = 0; j < m; j++)'']
   \<and> written (fst block_copy)
       = [''const size_t out_shift = i * os'', ''const size_t inp_shift = i * is'',
          ''output[out_shift + j] = input[inp_shift + j]'']
   \<and> one_line_blocks (fst block_copy)
       = [(''for (size_t j = 0; j < m; j++)'', ''output[out_shift + j] = input[inp_shift + j]'')]"
proof -
  have run: "block_copy_run n m input is output os tf
     = \<lparr>cells = replay (spec_copy_stores n m input is os) (cells output),
        stores = stores output @ spec_copy_stores n m input is os\<rparr>" for tf
    unfolding block_copy_run_def spec_copy_stores_def for_loop_fold Let_def
    by (simp only: fold_store_nested fold_store_replay)
  have same: "block_copy_run n m input is output os trans_flag
       = block_copy_run n m input is output os trans_flag'"
    by (simp only: run)
  have text_free: "filter (contains_str ''trans'')
        (written (fst block_copy) @ tl (block_headers (fst block_copy))) = []"
    by (simp add: block_copy_def Let_def)
  have sig: "snd block_copy = ''void block_copy(size_t n, size_t m, const double* __restrict__ input, size_t is, double* __restrict__ output, size_t os, const int trans)''"
    by (simp add: block_copy_def Let_def)
  have heads: "block_headers (fst block_copy)
       = [snd block_copy, ''for (size_t i = 0; i < n; i++)'', ''for (size_t j = 0; j < m; j++)'']"
    by (simp add: block_copy_def Let_def)
  have body: "written (fst block_copy)
       = [''const size_t out_shift = i * os'', ''const size_t inp_shift = i * is'',
          ''output[out_shift + j] = input[inp_shift + j]'']"
    by (simp add: block_copy_def Let_def)
  have inner: "one_line_blocks (fst block_copy)
       = [(''for (size_t j = 0; j < m; j++)'', ''output[out_shift + j] = input[inp_shift + j]'')]"
    by (simp add: block_copy_def Let_def)
  from run same text_free sig heads body inner show ?thesis
    by blast
qed

text \<open>
  C9. Each of the five generators (\<^verbatim>\<open>pybind11_func\<close> for every list of derivative
  tags, \<^verbatim>\<open>pybind11_transpose\<close>, \<^verbatim>\<open>naive_transpose\<close>, \<^verbatim>\<open>fast_transpose\<close> for every
  tile size, \<^verbatim>\<open>block_copy\<close>) issues its \<^verbatim>\<open>start_c_block\<close> and \<^verbatim>\<open>close_c_block\<close>
  calls well nested and in equal numbers: started at any depth it ends at that depth
  and never closes a block it did not open. Run on any emission context, it succeeds
  and leaves the block stack and the indentation level as they were.
\<close>

theorem generators_balanced:
  "nesting (pybind11_func get_deriv_indices name grad call_name max_L) d = Some d
   \<and> nesting (pybind11_transpose func_name wrapper_name) d = Some d
   \<and> nesting (fst naive_transpose) d = Some d
   \<and> nesting (fst (fast_transpose inner_block)) d = Some d
   \<and> nesting (fst block_copy) d = Some d
   \<and> nesting_state (cg_run (pybind11_func get_deriv_indices name grad call_name max_L) ctx)
       = Inr (block_stack ctx, indentation ctx)
   \<and> nesting_state (cg_run (pybind11_transpose func_name wrapper_name) ctx)
       = Inr (block_stack ctx, indentation ctx)
   \<and> nesting_state (cg_run (fst naive_transpose) ctx) = Inr (block_stack ctx, indentation ctx)
   \<and> nesting_state (cg_run (fst (fast_transpose inner_block)) ctx)
       = Inr (block_stack ctx, indentation ctx)
   \<and> nesting_state (cg_run (fst block_copy) ctx) = Inr (block_stack ctx, indentation ctx)"
  by (simp add: nesting_pybind11_func nesting_pybind11_transpose nesting_naive_transpose
      nesting_fast_transpose nesting_block_copy balanced_run)

text \<open>
  C2. In the wrapper emitted by \<^verbatim>\<open>pybind11_func\<close>, for every list of derivative tags,
  the validation checks are the one-statement \<^verbatim>\<open>if\<close> blocks of the emitted text, in
  this order: the order check \<^verbatim>\<open>L > max_L\<close>, the coordinate shape, the coefficient and
  exponent lengths, the center length, the row count of the primary output and of each
  derivative output, the point count of the primary output and of each derivative
  output. Each check's body is a \<^verbatim>\<open>throw\<close> statement: of an invalid-argument
  error for the order check, of a length error with the check's own message for every
  other one. Run with any truth values of
  the conditions, the wrapper throws the statement of the first check whose condition
  holds, and only if none holds does it reach the kernel call, which is its last
  statement.
\<close>

theorem pybind11_func_checks:
  assumes "c_identifier call_name"
  shows \<open>exec holds (pybind11_func get_deriv_indices name grad call_name max_L) 0 [] =
     (case find (\<lambda>(h, t). holds (cond_of h))
        (one_line_blocks (pybind11_func get_deriv_indices name grad call_name max_L)) of
        Some (h, t) \<Rightarrow> Throws t
      | None \<Rightarrow> Returns
         ([''auto xyz = arr_xyz.unchecked<2>()'',
           ''auto coeffs = arr_coeffs.unchecked<1>()'',
           ''auto exponents = arr_exponents.unchecked<1>()'',
           ''auto center = arr_center.unchecked<1>()'',
           ''auto out = arr_out.mutable_unchecked<2>()'']
          @ map (\<lambda>cart. ''auto out_'' @ cart @ '' = arr_'' @ cart @ ''_out.mutable_unchecked<2>()'')
              (get_deriv_indices grad)
          @ [''size_t nsize'',
             if holds ''spherical'' then ''    nsize = 2 * L + 1''
             else ''    nsize = ((L + 2) * (L + 1)) / 2'',
             last (written (pybind11_func get_deriv_indices name grad call_name max_L))]))
   \<and> map fst (one_line_blocks (pybind11_func get_deriv_indices name grad call_name max_L)) =
       [(''if (L > '' @ fmt_d max_L @ '')''), ''if (arr_xyz.shape(0) != 3)'',
        ''if (coeffs.shape(0) != exponents.shape(0))'', ''if (center.shape(0) != 3)'',
        ''if (out.shape(0) != nsize)'']
       @ map (\<lambda>cart. ''if (out_'' @ cart @ ''.shape(0) != nsize)'') (get_deriv_indices grad)
       @ [''if (out.shape(1) != arr_xyz.shape(1))'']
       @ map (\<lambda>cart. ''if (out_'' @ cart @ ''.shape(1) != arr_xyz.shape(1))'') (get_deriv_indices grad)
   \<and> list_all (\<lambda>(h, t). is_if h \<and> is_throw t)
       (one_line_blocks (pybind11_func get_deriv_indices name grad call_name max_L))
   \<and> last (written (pybind11_func get_deriv_indices name grad call_name max_L)) =
       call_name @ ''(L, xyz.shape(1), xyz.data(0, 0), xyz.data(1, 0), xyz.data(2, 0), coeffs.shape(0), coeffs.data(0), exponents.data(0), center.data(0), spherical, out.mutable_data(0, 0)''
         @ concat (map (\<lambda>cart. '', out_'' @ cart @ ''.mutable_data(0, 0)'') (get_deriv_indices grad))
         @ '')''
   \<and> map snd (one_line_blocks (pybind11_func get_deriv_indices name grad call_name max_L)) =
       [''    throw std::invalid_argument("Exceeded compiled angular momentum of '' @ fmt_d max_L @ ''. Please recompile with a higher angular momentum.'' @ esc_n @ ''")'',
        ''    throw std::length_error("Length of XYZ array must be (3, n).'' @ esc_n @ ''")'',
        ''    throw std::length_error("Length of coefficients and exponents must match.'' @ esc_n @ ''")'',
        ''    throw std::length_error("Length of center vector must be 3 (X, Y, Z).'' @ esc_n @ ''")'',
        ''    throw std::length_error("Size of the output array does not match the angular momentum.'' @ esc_n @ ''")'']
       @ map (\<lambda>cart. ''    throw std::length_error("Size of the output '' @ upper cart @ '' array does not match the angular momentum.'' @ esc_n @ ''")'') (get_deriv_indices grad)
       @ [''    throw std::length_error("Size of the output array and XYZ array must be the same.'' @ esc_n @ ''")'']
       @ map (\<lambda>cart. ''    throw std::length_error("Size of the output '' @ upper cart @ '' array and XYZ array must be the same.'' @ esc_n @ ''")'') (get_deriv_indices grad)\<close>
proof -
  have call: \<open>last (written (pybind11_func get_deriv_indices name grad call_name max_L)) =
       call_name @ ''(L, xyz.shape(1), xyz.data(0, 0), xyz.data(1, 0), xyz.data(2, 0), coeffs.shape(0), coeffs.data(0), exponents.data(0), center.data(0), spherical, out.mutable_data(0, 0)''
         @ concat (map (\<lambda>cart. '', out_'' @ cart @ ''.mutable_data(0, 0)'') (get_deriv_indices grad))
         @ '')''\<close>
    by (simp add: pybind11_func_def Let_def written_append written_for_each fold_append_each)
  have run: \<open>exec holds (pybind11_func get_deriv_indices name grad call_name max_L) 0 [] =
     (case find (\<lambda>(h, t). holds (cond_of h))
        (one_line_blocks (pybind11_func get_deriv_indices name grad call_name max_L)) of
        Some (h, t) \<Rightarrow> Throws t
      | None \<Rightarrow> Returns
         ([''auto xyz = arr_xyz.unchecked<2>()'',
           ''auto coeffs = arr_coeffs.unchecked<1>()'',
           ''auto exponents = arr_exponents.unchecked<1>()'',
           ''auto center = arr_center.unchecked<1>()'',
           ''auto out = arr_out.mutable_unchecked<2>()'']
          @ map (\<lambda>cart. ''auto out_'' @ cart @ '' = arr_'' @ cart @ ''_out.mutable_unchecked<2>()'')
              (get_deriv_indices grad)
          @ [''size_t nsize'',
             if holds ''spherical'' then ''    nsize = 2 * L + 1''
             else ''    nsize = ((L + 2) * (L + 1)) / 2'',
             last (written (pybind11_func get_deriv_indices name grad call_name max_L))]))\<close>
    by (simp only: exec_pybind11_func [OF assms] one_line_blocks_pybind11_func call)
  have heads: \<open>map fst (one_line_blocks (pybind11_func get_deriv_indices name grad call_name max_L)) =
       [(''if (L > '' @ fmt_d max_L @ '')''), ''if (arr_xyz.shape(0) != 3)'',
        ''if (coeffs.shape(0) != exponents.shape(0))'', ''if (center.shape(0) != 3)'',
        ''if (out.shape(0) != nsize)'']
       @ map (\<lambda>cart. ''if (out_'' @ cart @ ''.shape(0) != nsize)'') (get_deriv_indices grad)
       @ [''if (out.shape(1) != arr_xyz.shape(1))'']
       @ map (\<lambda>cart. ''if (out_'' @ cart @ ''.shape(1) != arr_xyz.shape(1))'') (get_deriv_indices grad)\<close>
    by (simp add: one_line_blocks_pybind11_func comp_def)
  have throws: \<open>list_all (\<lambda>(h, t). is_if h \<and> is_throw t)
       (one_line_blocks (pybind11_func get_deriv_indices name grad call_name max_L))\<close>
    by (simp add: one_line_blocks_pybind11_func list.pred_map comp_def list.pred_True is_if_def
        is_throw_def)
  have msgs: \<open>map snd (one_line_blocks (pybind11_func get_deriv_indices name grad call_name max_L)) =
       [''    throw std::invalid_argument("Exceeded compiled angular momentum of '' @ fmt_d max_L @ ''. Please recompile with a higher angular momentum.'' @ esc_n @ ''")'',
        ''    throw std::length_error("Length of XYZ array must be (3, n).'' @ esc_n @ ''")'',
        ''    throw std::length_error("Length of coefficients and exponents must match.'' @ esc_n @ ''")'',
        ''    throw std::length_error("Length of center vector must be 3 (X, Y, Z).'' @ esc_n @ ''")'',
        ''    throw std::length_error("Size of the output array does not match the angular momentum.'' @ esc_n @ ''")'']
       @ map (\<lambda>cart. ''    throw std::length_error("Size of the output '' @ upper cart @ '' array does not match the angular momentum.'' @ esc_n @ ''")'') (get_deriv_indices grad)
       @ [''    throw std::length_error("Size of the output array and XYZ array must be the same.'' @ esc_n @ ''")'']
       @ map (\<lambda>cart. ''    throw std::length_error("Size of the output '' @ upper cart @ '' array and XYZ array must be the same.'' @ esc_n @ ''")'') (get_deriv_indices grad)\<close>
    by (simp add: one_line_blocks_pybind11_func comp_def)
  from run heads throws call msgs show ?thesis
    by (intro conjI)
qed

theorem pybind11_func_checks_witness:
  \<open>c_identifier ''gg_collocation_deriv1''
   \<and> exec (\<lambda>c. c = ''out_y.shape(0) != nsize'' \<or> c = ''out.shape(1) != arr_xyz.shape(1)'')
       (pybind11_func (\<lambda>g. [''x'', ''y'', ''z'']) ''collocation_deriv1'' (1::nat) ''gg_collocation_deriv1'' 6) 0 []
     = Throws (''    throw std::length_error("Size of the output Y array does not match the angular momentum.'' @ esc_n @ ''")'')\<close>
proof -
  have ident: "c_identifier ''gg_collocation_deriv1''"
    by (simp add: c_identifier_def ident_char_def)
  have run: \<open>exec (\<lambda>c. c = ''out_y.shape(0) != nsize'' \<or> c = ''out.shape(1) != arr_xyz.shape(1)'')
       (pybind11_func (\<lambda>g. [''x'', ''y'', ''z'']) ''collocation_deriv1'' (1::nat) ''gg_collocation_deriv1'' 6) 0 []
     = (case find (\<lambda>(h, t). cond_of h = ''out_y.shape(0) != nsize''
                     \<or> cond_of h = ''out.shape(1) != arr_xyz.shape(1)'')
        (one_line_blocks (pybind11_func (\<lambda>g. [''x'', ''y'', ''z'']) ''collocation_deriv1'' (1::nat) ''gg_collocation_deriv1'' 6)) of
        Some (h, t) \<Rightarrow> Throws t
      | None \<Rightarrow> Returns
         ([''auto xyz = arr_xyz.unchecked<2>()'',
           ''auto coeffs = arr_coeffs.unchecked<1>()'',
           ''auto exponents = arr_exponents.unchecked<1>()'',
           ''auto center = arr_center.unchecked<1>()'',
           ''auto out = arr_out.mutable_unchecked<2>()'']
          @ map (\<lambda>cart. ''auto out_'' @ cart @ '' = arr_'' @ cart @ ''_out.mutable_unchecked<2>()'')
              ((\<lambda>g. [''x'', ''y'', ''z'']) (1::nat))
          @ [''size_t nsize'',
             if ''spherical'' = ''out_y.shape(0) != nsize''
                 \<or> ''spherical'' = ''out.shape(1) != arr_xyz.shape(1)''
             then ''    nsize = 2 * L + 1''
             else ''    nsize = ((L + 2) * (L + 1)) / 2'',
             last (written (pybind11_func (\<lambda>g. [''x'', ''y'', ''z'']) ''collocation_deriv1'' (1::nat) ''gg_collocation_deriv1'' 6))]))\<close>
    using pybind11_func_checks [OF ident, of
      "\<lambda>c. c = ''out_y.shape(0) != nsize'' \<or> c = ''out.shape(1) != arr_xyz.shape(1)''"
      "(\<lambda>g. [''x'', ''y'', ''z''])" "''collocation_deriv1''" "1::nat" 6]
    by (rule conjunct1)
  have found: \<open>find (\<lambda>(h, t). cond_of h = ''out_y.shape(0) != nsize''
                     \<or> cond_of h = ''out.shape(1) != arr_xyz.shape(1)'')
        (one_line_blocks (pybind11_func (\<lambda>g. [''x'', ''y'', ''z'']) ''collocation_deriv1'' (1::nat) ''gg_collocation_deriv1'' 6))
      = Some (''if (out_y.shape(0) != nsize)'',
          ''    throw std::length_error("Size of the output Y array does not match the angular momentum.'' @ esc_n @ ''")'')\<close>
  proof -
    have up: "upper ''x'' = ''X''" "upper ''y'' = ''Y''" "upper ''z'' = ''Z''"
      by code_simp+
    show ?thesis
      by (simp add: one_line_blocks_pybind11_func cond_of_def up)
  qed
  show ?thesis
    unfolding run found using ident by simp
qed

text \<open>
  C3. The wrapper emitted by \<^verbatim>\<open>pybind11_func\<close> assigns \<^verbatim>\<open>nsize = 2 * L + 1\<close> when
  \<^verbatim>\<open>spherical\<close> holds and \<^verbatim>\<open>nsize = ((L + 2) * (L + 1)) / 2\<close> otherwise; for an order
  \<open>L\<close> from 0 up to \<open>2^15\<close>, where the \<^verbatim>\<open>int\<close> arithmetic stays in range, these are the
  numbers \<open>2L + 1\<close> and \<open>(L + 2)(L + 1) / 2\<close>, 5 and 6 for \<open>L = 2\<close>. The checks that
  compare against \<^verbatim>\<open>nsize\<close> are exactly one for the primary output buffer and one for
  each derivative output buffer, in the provider's order, each throwing a message that
  names the buffer.
\<close>

theorem row_count_checks:
  assumes "c_identifier call_name" and "0 \<le> L" and "L < 2 ^ 15"
  shows \<open>map_option uint (nsize True L) = Some (2 * L + 1)
   \<and> map_option uint (nsize False L) = Some (((L + 2) * (L + 1)) div 2)
   \<and> nsize True 2 = Some 5
   \<and> nsize False 2 = Some 6
   \<and> exec (\<lambda>c. c = ''spherical'') (pybind11_func get_deriv_indices name grad call_name max_L) 0 [] =
       Returns
         ([''auto xyz = arr_xyz.unchecked<2>()'',
           ''auto coeffs = arr_coeffs.unchecked<1>()'',
           ''auto exponents = arr_exponents.unchecked<1>()'',
           ''auto center = arr_center.unchecked<1>()'',
           ''auto out = arr_out.mutable_unchecked<2>()'']
          @ map (\<lambda>cart. ''auto out_'' @ cart @ '' = arr_'' @ cart @ ''_out.mutable_unchecked<2>()'')
              (get_deriv_indices grad)
          @ [''size_t nsize'',
             ''    nsize = 2 * L + 1'',
             call_name @ ''(L, xyz.shape(1), xyz.data(0, 0), xyz.data(1, 0), xyz.data(2, 0), coeffs.shape(0), coeffs.data(0), exponents.data(0), center.data(0), spherical, out.mutable_data(0, 0)''
         @ concat (map (\<lambda>cart. '', out_'' @ cart @ ''.mutable_data(0, 0)'') (get_deriv_indices grad))
         @ '')''])
   \<and> exec (\<lambda>c. False) (pybind11_func get_deriv_indices name grad call_name max_L) 0 [] =
       Returns
         ([''auto xyz = arr_xyz.unchecked<2>()'',
           ''auto coeffs = arr_coeffs.unchecked<1>()'',
           ''auto exponents = arr_exponents.unchecked<1>()'',
           ''auto center = arr_center.unchecked<1>()'',
           ''auto out = arr_out.mutable_unchecked<2>()'']
          @ map (\<lambda>cart. ''auto out_'' @ cart @ '' = arr_'' @ cart @ ''_out.mutable_unchecked<2>()'')
              (get_deriv_indices grad)
          @ [''size_t nsize'',
             ''    nsize = ((L + 2) * (L + 1)) / 2'',
             call_name @ ''(L, xyz.shape(1), xyz.data(0, 0), xyz.data(1, 0), xyz.data(2, 0), coeffs.shape(0), coeffs.data(0), exponents.data(0), center.data(0), spherical, out.mutable_data(0, 0)''
         @ concat (map (\<lambda>cart. '', out_'' @ cart @ ''.mutable_data(0, 0)'') (get_deriv_indices grad))
         @ '')''])
   \<and> filter (\<lambda>(h, t). ends_with ''nsize'' (cond_of h))
        (one_line_blocks (pybind11_func get_deriv_indices name grad call_name max_L)) =
       (''if (out.shape(0) != nsize)'',
         (''    throw std::length_error("Size of the output array does not match the angular momentum.'' @ esc_n @ ''")''))
       # map (\<lambda>cart.
           ((''if (out_'' @ cart @ ''.shape(0) != nsize)''),
            (''    throw std::length_error("Size of the output '' @ upper cart @ '' array does not match the angular momentum.'' @ esc_n @ ''")''))) (get_deriv_indices grad)\<close>
proof -
  have prod: "(L + 2) * (L + 1) \<le> (2 ^ 15 + 1) * 2 ^ 15"
    using assms(2,3) by (intro mult_mono) simp_all
  have pos: "0 < (L + 2) * (L + 1)"
    using assms(2) by (intro mult_pos_pos) simp_all
  define p where "p = (L + 2) * (L + 1)"
  have p_bounds: "0 < p" "p \<le> 1073774592"
    using prod pos by (simp_all add: p_def)
  have p_range: "int_range p"
    using p_bounds by (simp add: int_range_def)
  have p_half: "p sdiv 2 = p div 2"
    using p_bounds by (simp add: signed_divide_int_def)
  have half_bounds: "0 \<le> p div 2" "p div 2 < 2 ^ 64"
    using p_bounds by simp_all
  have sph_word: "nsize True L = Some (word_of_int (2 * L + 1))"
    using assms(2,3) by (simp add: nsize_def c_int_def int_range_def)
  have sph: "map_option uint (nsize True L) = Some (2 * L + 1)"
    unfolding sph_word using assms(2,3) by (simp only: option.map uint_size_t) simp
  have "int_range (L + 2)" and "int_range (L + 1)"
    using assms(2,3) by (simp_all add: int_range_def)
  then have "nsize False L = Some (word_of_int (p sdiv 2))"
    using p_range by (simp add: nsize_def c_int_def p_def)
  then have car_word: "nsize False L = Some (word_of_int (p div 2))"
    by (simp only: p_half)
  have "map_option uint (nsize False L) = Some (p div 2)"
    unfolding car_word using half_bounds by (simp only: option.map uint_size_t) simp
  then have car: "map_option uint (nsize False L) = Some (((L + 2) * (L + 1)) div 2)"
    by (simp only: p_def)
  have five: "nsize True 2 = Some 5"
    by (simp add: nsize_def c_int_def int_range_def)
  have six: "nsize False 2 = Some 6"
    by (simp add: nsize_def c_int_def int_range_def signed_divide_int_def)
  have none_s: \<open>find (\<lambda>(h, t). cond_of h = ''spherical'')
       ([((''if (L > '' @ fmt_d max_L @ '')''),
         (''    throw std::invalid_argument("Exceeded compiled angular momentum of '' @ fmt_d max_L @ ''. Please recompile with a higher angular momentum.'' @ esc_n @ ''")'')),
        (''if (arr_xyz.shape(0) != 3)'',
         (''    throw std::length_error("Length of XYZ array must be (3, n).'' @ esc_n @ ''")'')),
        (''if (coeffs.shape(0) != exponents.shape(0))'',
         (''    throw std::length_error("Length of coefficients and exponents must match.'' @ esc_n @ ''")'')),
        (''if (center.shape(0) != 3)'',
         (''    throw std::length_error("Length of center vector must be 3 (X, Y, Z).'' @ esc_n @ ''")'')),
        (''if (out.shape(0) != nsize)'',
         (''    throw std::length_error("Size of the output array does not match the angular momentum.'' @ esc_n @ ''")''))]
       @ map (\<lambda>cart.
           ((''if (out_'' @ cart @ ''.shape(0) != nsize)''),
            (''    throw std::length_error("Size of the output '' @ upper cart @ '' array does not match the angular momentum.'' @ esc_n @ ''")''))) (get_deriv_indices grad)
       @ [(''if (out.shape(1) != arr_xyz.shape(1))'',
         (''    throw std::length_error("Size of the output array and XYZ array must be the same.'' @ esc_n @ ''")''))]
       @ map (\<lambda>cart.
           ((''if (out_'' @ cart @ ''.shape(1) != arr_xyz.shape(1))''),
            (''    throw std::length_error("Size of the output '' @ upper cart @ '' array and XYZ array must be the same.'' @ esc_n @ ''")''))) (get_deriv_indices grad)) = None\<close>
    by (auto simp add: find_None_iff cond_of_def)
  have run_s: \<open>exec (\<lambda>c. c = ''spherical'') (pybind11_func get_deriv_indices name grad call_name max_L) 0 [] =
       Returns
         ([''auto xyz = arr_xyz.unchecked<2>()'',
           ''auto coeffs = arr_coeffs.unchecked<1>()'',
           ''auto exponents = arr_exponents.unchecked<1>()'',
           ''auto center = arr_center.unchecked<1>()'',
           ''auto out = arr_out.mutable_unchecked<2>()'']
          @ map (\<lambda>cart. ''auto out_'' @ cart @ '' = arr_'' @ cart @ ''_out.mutable_unchecked<2>()'')
              (get_deriv_indices grad)
          @ [''size_t nsize'',
             ''    nsize = 2 * L + 1'',
             call_name @ ''(L, xyz.shape(1), xyz.data(0, 0), xyz.data(1, 0), xyz.data(2, 0), coeffs.shape(0), coeffs.data(0), exponents.data(0), center.data(0), spherical, out.mutable_data(0, 0)''
         @ concat (map (\<lambda>cart. '', out_'' @ cart @ ''.mutable_data(0, 0)'') (get_deriv_indices grad))
         @ '')''])\<close>
    unfolding exec_pybind11_func [OF assms(1)] none_s by simp
  have none_c: \<open>find (\<lambda>(h, t). False)
       ([((''if (L > '' @ fmt_d max_L @ '')''),
         (''    throw std::invalid_argument("Exceeded compiled angular momentum of '' @ fmt_d max_L @ ''. Please recompile with a higher angular momentum.'' @ esc_n @ ''")'')),
        (''if (arr_xyz.shape(0) != 3)'',
         (''    throw std::length_error("Length of XYZ array must be (3, n).'' @ esc_n @ ''")'')),
        (''if (coeffs.shape(0) != exponents.shape(0))'',
         (''    throw std::length_error("Length of coefficients and exponents must match.'' @ esc_n @ ''")'')),
        (''if (center.shape(0) != 3)'',
         (''    throw std::length_error("Length of center vector must be 3 (X, Y, Z).'' @ esc_n @ ''")'')),
        (''if (out.shape(0) != nsize)'',
         (''    throw std::length_error("Size of the output array does not match the angular momentum.'' @ esc_n @ ''")''))]
       @ map (\<lambda>cart.
           ((''if (out_'' @ cart @ ''.shape(0) != nsize)''),
            (''    throw std::length_error("Size of the output '' @ upper cart @ '' array does not match the angular momentum.'' @ esc_n @ ''")''))) (get_deriv_indices grad)
       @ [(''if (out.shape(1) != arr_xyz.shape(1))'',
         (''    throw std::length_error("Size of the output array and XYZ array must be the same.'' @ esc_n @ ''")''))]
       @ map (\<lambda>cart.
           ((''if (out_'' @ cart @ ''.shape(1) != arr_xyz.shape(1))''),
            (''    throw std::length_error("Size of the output '' @ upper cart @ '' array and XYZ array must be the same.'' @ esc_n @ ''")''))) (get_deriv_indices grad)) = None\<close>
    by (simp add: find_None_iff)
  have run_c: \<open>exec (\<lambda>c. False) (pybind11_func get_deriv_indices name grad call_name max_L) 0 [] =
       Returns
         ([''auto xyz = arr_xyz.unchecked<2>()'',
           ''auto coeffs = arr_coeffs.unchecked<1>()'',
           ''auto exponents = arr_exponents.unchecked<1>()'',
           ''auto center = arr_center.unchecked<1>()'',
           ''auto out = arr_out.mutable_unchecked<2>()'']
          @ map (\<lambda>cart. ''auto out_'' @ cart @ '' = arr_'' @ cart @ ''_out.mutable_unchecked<2>()'')
              (get_deriv_indices grad)
          @ [''size_t nsize'',
             ''    nsize = ((L + 2) * (L + 1)) / 2'',
             call_name @ ''(L, xyz.shape(1), xyz.data(0, 0), xyz.data(1, 0), xyz.data(2, 0), coeffs.shape(0), coeffs.data(0), exponents.data(0), center.data(0), spherical, out.mutable_data(0, 0)''
         @ concat (map (\<lambda>cart. '', out_'' @ cart @ ''.mutable_data(0, 0)'') (get_deriv_indices grad))
         @ '')''])\<close>
    unfolding exec_pybind11_func [OF assms(1)] none_c by simp
  have rows: \<open>filter (\<lambda>(h, t). ends_with ''nsize'' (cond_of h))
        (one_line_blocks (pybind11_func get_deriv_indices name grad call_name max_L)) =
       (''if (out.shape(0) != nsize)'',
         (''    throw std::length_error("Size of the output array does not match the angular momentum.'' @ esc_n @ ''")''))
       # map (\<lambda>cart.
           ((''if (out_'' @ cart @ ''.shape(0) != nsize)''),
            (''    throw std::length_error("Size of the output '' @ upper cart @ '' array does not match the angular momentum.'' @ esc_n @ ''")''))) (get_deriv_indices grad)\<close>
    using not_ends_with_nsize_fmt_d [of "''L > ''" max_L]
    by (simp add: one_line_blocks_pybind11_func filter_map comp_def cond_of_def
        butlast_append ends_with_def)
  from sph car five six run_s run_c rows show ?thesis
    by (intro conjI)
qed

theorem row_count_checks_witness:
  "c_identifier ''gg_collocation'' \<and> (0::int) \<le> 2 \<and> (2::int) < 2 ^ 15
   \<and> map_option uint (nsize True 2) = Some 5 \<and> map_option uint (nsize False 2) = Some 6"
proof -
  have ident: "c_identifier ''gg_collocation''"
    by (simp add: c_identifier_def ident_char_def)
  have range: "(0::int) \<le> 2" "(2::int) < 2 ^ 15"
    by simp_all
  note w = row_count_checks [OF ident range, of "\<lambda>g. []" "''collocation''" "0::nat" 6]
  have "map_option uint (nsize True 2) = Some (2 * 2 + 1)"
    by (rule w [THEN conjunct1])
  moreover have "map_option uint (nsize False 2) = Some ((2 + 2) * (2 + 1) div 2)"
    by (rule w [THEN conjunct2, THEN conjunct1])
  ultimately show ?thesis
    using ident by simp
qed

text \<open>
  C4. For every list of derivative tags returned by the provider, the kernel call
  emitted by \<^verbatim>\<open>pybind11_func\<close> is the last line written, and its arguments are, in this
  order: \<^verbatim>\<open>L\<close>, the point count, the base pointers of rows 0, 1 and 2 of the coordinate
  buffer, the coefficient count, the coefficient, exponent and center base pointers,
  the spherical flag, the primary output pointer, then one output pointer per tag in
  the provider's order. The extra parameters of the signature and the per-derivative
  checks follow the same order.
\<close>

theorem kernel_call_order:
  \<open>last (written (pybind11_func get_deriv_indices name grad call_name max_L)) =
       call_name @ ''('' @ join '', ''
        ([''L'', ''xyz.shape(1)'', ''xyz.data(0, 0)'', ''xyz.data(1, 0)'', ''xyz.data(2, 0)'',
          ''coeffs.shape(0)'', ''coeffs.data(0)'', ''exponents.data(0)'', ''center.data(0)'',
          ''spherical'', ''out.mutable_data(0, 0)'']
         @ map (\<lambda>cart. ''out_'' @ cart @ ''.mutable_data(0, 0)'') (get_deriv_indices grad)) @ '')''
   \<and> hd (block_headers (pybind11_func get_deriv_indices name grad call_name max_L)) =
       ''void '' @ name @ ''(int L, py::array_t<double> arr_xyz, py::array_t<double> arr_coeffs,\<newline>py::array_t<double> arr_exponents, py::array_t<double> arr_center, bool spherical,\<newline>py::array_t<double> arr_out''
         @ concat (map (\<lambda>cart. '', py::array_t<double> arr_'' @ cart @ ''_out'') (get_deriv_indices grad))
         @ '')''
   \<and> one_line_blocks (pybind11_func get_deriv_indices name grad call_name max_L) =
       [((''if (L > '' @ fmt_d max_L @ '')''),
         (''    throw std::invalid_argument("Exceeded compiled angular momentum of '' @ fmt_d max_L @ ''. Please recompile with a higher angular momentum.'' @ esc_n @ ''")'')),
        (''if (arr_xyz.shape(0) != 3)'',
         (''    throw std::length_error("Length of XYZ array must be (3, n).'' @ esc_n @ ''")'')),
        (''if (coeffs.shape(0) != exponents.shape(0))'',
         (''    throw std::length_error("Length of coefficients and exponents must match.'' @ esc_n @ ''")'')),
        (''if (center.shape(0) != 3)'',
         (''    throw std::length_error("Length of center vector must be 3 (X, Y, Z).'' @ esc_n @ ''")'')),
        (''if (out.shape(0) != nsize)'',
         (''    throw std::length_error("Size of the output array does not match the angular momentum.'' @ esc_n @ ''")''))]
       @ map (\<lambda>cart.
           ((''if (out_'' @ cart @ ''.shape(0) != nsize)''),
            (''    throw std::length_error("Size of the output '' @ upper cart @ '' array does not match the angular momentum.'' @ esc_n @ ''")''))) (get_deriv_indices grad)
       @ [(''if (out.shape(1) != arr_xyz.shape(1))'',
         (''    throw std::length_error("Size of the output array and XYZ array must be the same.'' @ esc_n @ ''")''))]
       @ map (\<lambda>cart.
           ((''if (out_'' @ cart @ ''.shape(1) != arr_xyz.shape(1))''),
            (''    throw std::length_error("Size of the output '' @ upper cart @ '' array and XYZ array must be the same.'' @ esc_n @ ''")''))) (get_deriv_indices grad)\<close>
proof -
  have call: \<open>last (written (pybind11_func get_deriv_indices name grad call_name max_L)) =
       call_name @ ''('' @ join '', ''
        ([''L'', ''xyz.shape(1)'', ''xyz.data(0, 0)'', ''xyz.data(1, 0)'', ''xyz.data(2, 0)'',
          ''coeffs.shape(0)'', ''coeffs.data(0)'', ''exponents.data(0)'', ''center.data(0)'',
          ''spherical'', ''out.mutable_data(0, 0)'']
         @ map (\<lambda>cart. ''out_'' @ cart @ ''.mutable_data(0, 0)'') (get_deriv_indices grad)) @ '')''\<close>
    by (simp add: pybind11_func_def Let_def written_append written_for_each fold_append_each
        join_Cons comp_def)
  have sig: \<open>hd (block_headers (pybind11_func get_deriv_indices name grad call_name max_L)) =
       ''void '' @ name @ ''(int L, py::array_t<double> arr_xyz, py::array_t<double> arr_coeffs,\<newline>py::array_t<double> arr_exponents, py::array_t<double> arr_center, bool spherical,\<newline>py::array_t<double> arr_out''
         @ concat (map (\<lambda>cart. '', py::array_t<double> arr_'' @ cart @ ''_out'') (get_deriv_indices grad))
         @ '')''\<close>
    by (simp add: pybind11_func_def Let_def fold_append_each)
  from call sig one_line_blocks_pybind11_func [of get_deriv_indices name grad call_name max_L]
  show ?thesis
    by (intro conjI)
qed



text \<open>
  C10. The routine emitted by \<^verbatim>\<open>fast_transpose\<close> for a tile size \<open>inner_block \<ge> 1\<close>
  declares its staging array with \<open>inner_block * inner_block\<close> elements and reaches it
  only as \<^verbatim>\<open>tmp[k * T + l]\<close>, in the gather and in the scatter loop. For every \<open>n\<close>
  and \<open>m\<close> the run ends without a staging access out of bounds: every tile has
  \<open>nremain \<le> T\<close> and \<open>mremain \<le> T\<close>, and for \<open>k < T\<close> and \<open>l < T\<close> the index
  \<open>k * T + l\<close> is below \<open>T * T\<close>. The statements and loop headers of the routine,
  the two clamped bounds among them, are the ones the generator emits.
\<close>

theorem staging_in_bounds:
  fixes n m :: size_t and tmp0 :: "'a buffer"
  assumes "tile_ok inner_block"
  shows "(\<exists>s'. gg_fast_transpose inner_block n m input output tmp0 = Inr s')
    \<and> (\<forall>nb. nb < blocks (word_of_int inner_block) n \<longrightarrow>
          remain (word_of_int inner_block) n (tile_start (word_of_int inner_block) nb)
            \<le> word_of_int inner_block)
    \<and> (\<forall>k l :: size_t. k < word_of_int inner_block \<longrightarrow> l < word_of_int inner_block \<longrightarrow>
          unat (k * word_of_int inner_block + l) < nat (inner_block * inner_block))
    \<and> filter (starts_with ''double '') (written (fst (fast_transpose inner_block)))
        = [''double tmp['' @ fmt_d (inner_block * inner_block) @ '']  __attribute__((aligned(64)))'']
    \<and> one_line_blocks (fst (fast_transpose inner_block))
        = [(''for (size_t k = 0; k < mremain; k++)'',
            ''tmp[k * '' @ fmt_d inner_block @ '' + l] = input[start + k]''),
           (''for (size_t l = 0; l < nremain; l++)'',
            ''output[start + l] = tmp[k * '' @ fmt_d inner_block @ '' + l]'')]
    \<and> filter (\<lambda>l. \<not> is_comment l) (written (fst (fast_transpose inner_block)))
        = [''double tmp['' @ fmt_d (inner_block * inner_block) @ '']  __attribute__((aligned(64)))'',
           ''size_t nblocks = n / '' @ fmt_d inner_block,
           ''nblocks += (n % '' @ fmt_d inner_block @ '') ? 1 : 0'',
           ''size_t mblocks = m / '' @ fmt_d inner_block,
           ''mblocks += (m % '' @ fmt_d inner_block @ '') ? 1 : 0'',
           ''const size_t nstart = nb * '' @ fmt_d inner_block,
           ''size_t nremain = ((nstart + '' @ fmt_d inner_block @ '') > n) ? (n - nstart) : ''
             @ fmt_d inner_block,
           ''const size_t mstart = mb * '' @ fmt_d inner_block,
           ''size_t mremain = ((mstart + '' @ fmt_d inner_block @ '') > m) ? (m - mstart) : ''
             @ fmt_d inner_block,
           ''const size_t start = (nstart + l) * m + mstart'',
           ''tmp[k * '' @ fmt_d inner_block @ '' + l] = input[start + k]'',
           ''const size_t start = (mstart + k) * n + nstart'',
           ''output[start + l] = tmp[k * '' @ fmt_d inner_block @ '' + l]'']
    \<and> block_headers (fst (fast_transpose inner_block))
        = [snd (fast_transpose inner_block),
           ''for (size_t nb = 0; nb < nblocks; nb++)'',
           ''for (size_t mb = 0; mb < mblocks; mb++)'',
           ''for (size_t l = 0; l < nremain; l++)'',
           ''for (size_t k = 0; k < mremain; k++)'',
           ''for (size_t k = 0; k < mremain; k++)'',
           ''for (size_t l = 0; l < nremain; l++)'']"
proof -
  define t :: size_t where "t = word_of_int inner_block"
  have T: "unat t = nat inner_block"
    unfolding t_def using assms by (rule tile_ok_word(1))
  have "0 < unat t"
    using tile_ok_word(4) [OF assms] T by simp
  then have nz: "t \<noteq> 0"
    by (simp add: unat_gt_0)
  have sq: "unat t * unat t < 2 ^ 64"
    using tile_ok_word(3) [OF assms] T by simp
  have len: "nat (inner_block * inner_block) = unat t * unat t"
    using tile_ok_word(2) [OF assms] T by simp
  have run: "\<exists>s'. gg_fast_transpose inner_block n m input output tmp0 = Inr s'"
    using assms by (rule fast_transpose_total)
  have clamp: "remain t n (tile_start t nb) \<le> t" if "nb < blocks t n" for nb
  proof -
    have "unat nb < tiles (unat t) (unat n)"
      using that unat_blocks [OF nz, of n] by (simp add: word_less_nat_alt)
    with nz have "unat (remain t n (tile_start t (of_nat (unat nb)))) \<le> unat t"
      by (rule tile_bounds(3))
    then show ?thesis
      by (simp add: word_le_nat_alt)
  qed
  have index: "unat (k * t + l) < nat (inner_block * inner_block)" if "k < t" and "l < t"
    for k l :: size_t
  proof -
    have "unat k < unat t" and "unat l < unat t"
      using that by (simp_all add: word_less_nat_alt)
    then have "unat (of_nat (unat k) * t + of_nat (unat l)) = unat k * unat t + unat l"
      and "unat k * unat t + unat l < unat t * unat t"
      using sq by (rule staging_index)+
    then show ?thesis
      using len by simp
  qed
  have decl: "filter (starts_with ''double '') (written (fst (fast_transpose inner_block)))
        = [''double tmp['' @ fmt_d (inner_block * inner_block) @ '']  __attribute__((aligned(64)))'']"
    by (simp add: fast_transpose_def Let_def)
  have lines: "one_line_blocks (fst (fast_transpose inner_block))
        = [(''for (size_t k = 0; k < mremain; k++)'',
            ''tmp[k * '' @ fmt_d inner_block @ '' + l] = input[start + k]''),
           (''for (size_t l = 0; l < nremain; l++)'',
            ''output[start + l] = tmp[k * '' @ fmt_d inner_block @ '' + l]'')]"
    by (simp add: fast_transpose_def Let_def)
  have fast_lines: "filter (\<lambda>l. \<not> is_comment l) (written (fst (fast_transpose inner_block)))
        = [''double tmp['' @ fmt_d (inner_block * inner_block) @ '']  __attribute__((aligned(64)))'',
           ''size_t nblocks = n / '' @ fmt_d inner_block,
           ''nblocks += (n % '' @ fmt_d inner_block @ '') ? 1 : 0'',
           ''size_t mblocks = m / '' @ fmt_d inner_block,
           ''mblocks += (m % '' @ fmt_d inner_block @ '') ? 1 : 0'',
           ''const size_t nstart = nb * '' @ fmt_d inner_block,
           ''size_t nremain = ((nstart + '' @ fmt_d inner_block @ '') > n) ? (n - nstart) : ''
             @ fmt_d inner_block,
           ''const size_t mstart = mb * '' @ fmt_d inner_block,
           ''size_t mremain = ((mstart + '' @ fmt_d inner_block @ '') > m) ? (m - mstart) : ''
             @ fmt_d inner_block,
           ''const size_t start = (nstart + l) * m + mstart'',
           ''tmp[k * '' @ fmt_d inner_block @ '' + l] = input[start + k]'',
           ''const size_t start = (mstart + k) * n + nstart'',
           ''output[start + l] = tmp[k * '' @ fmt_d inner_block @ '' + l]'']"
    by (simp add: fast_transpose_def Let_def is_comment_def)
  have fast_heads: "block_headers (fst (fast_transpose inner_block))
        = [snd (fast_transpose inner_block),
           ''for (size_t nb = 0; nb < nblocks; nb++)'',
           ''for (size_t mb = 0; mb < mblocks; mb++)'',
           ''for (size_t l = 0; l < nremain; l++)'',
           ''for (size_t k = 0; k < mremain; k++)'',
           ''for (size_t k = 0; k < mremain; k++)'',
           ''for (size_t l = 0; l < nremain; l++)'']"
    by (simp add: fast_transpose_def Let_def)
  from run clamp index decl lines fast_lines fast_heads show ?thesis
    unfolding t_def by blast
qed

theorem staging_in_bounds_witness:
  "tile_ok 2
   \<and> (\<exists>s'. gg_fast_transpose 2 3 2 (\<lambda>i. unat i) \<lparr>cells = \<lambda>i. 0, stores = []\<rparr> (\<lambda>i. 0) = Inr s')"
  using staging_in_bounds [of 2 3 2 "\<lambda>i. unat i" "\<lparr>cells = \<lambda>i. 0, stores = []\<rparr>" "\<lambda>i. 0"]
  by (simp add: tile_ok_def addressable_def)

text \<open>
  C7. In the routine emitted by \<^verbatim>\<open>fast_transpose\<close> for the tile size \<open>T\<close>, run on an
  \<open>n\<close> by \<open>m\<close> matrix, every tile \<open>(nb, mb)\<close> has its origin at
  \<open>nstart = nb * T\<close>, \<open>mstart = mb * T\<close> and the clamped bounds
  \<open>nremain = min T (n - nstart)\<close> and \<open>mremain = min T (m - mstart)\<close>. The gather loops
  of the tile end with \<^verbatim>\<open>tmp[k * T + l]\<close> holding
  \<^verbatim>\<open>input[(nstart + l) * m + mstart + k]\<close>, the element of row \<open>nstart + l\<close> and column
  \<open>mstart + k\<close>, for every \<open>l < nremain\<close> and \<open>k < mremain\<close>, and leave the output
  untouched. The generator emits one statement that stores into the staging array, the
  one of the gather loop: there is no transposition within the staging array. The
  statements and loop headers of the routine are the ones the generator emits.
\<close>

theorem gather_pretransposed:
  fixes n m nb mb :: size_t and s :: "'a frame"
  assumes "tile_ok inner_block" and "matrix_ok n m"
    and "nb < blocks (word_of_int inner_block) n"
    and "mb < blocks (word_of_int inner_block) m"
  shows "(let t = word_of_int inner_block;
              nstart = tile_start t nb; nremain = remain t n nstart;
              mstart = tile_start t mb; mremain = remain t m mstart
          in unat nstart = unat nb * nat inner_block
           \<and> unat mstart = unat mb * nat inner_block
           \<and> unat nremain = min (nat inner_block) (unat n - unat nstart)
           \<and> unat mremain = min (nat inner_block) (unat m - unat mstart)
           \<and> (\<exists>s'. gather (nat (inner_block * inner_block)) t m input
                      nstart nremain mstart mremain s = Inr s'
                \<and> out s' = out s
                \<and> (\<forall>l k. l < nremain \<longrightarrow> k < mremain \<longrightarrow>
                      tmp s' (k * t + l) = input ((nstart + l) * m + mstart + k)
                    \<and> unat ((nstart + l) * m + mstart + k)
                        = (unat nstart + unat l) * unat m + (unat mstart + unat k))))
    \<and> filter (starts_with ''tmp['') (written (fst (fast_transpose inner_block)))
        = [''tmp[k * '' @ fmt_d inner_block @ '' + l] = input[start + k]'']
    \<and> filter (\<lambda>l. \<not> is_comment l) (written (fst (fast_transpose inner_block)))
        = [''double tmp['' @ fmt_d (inner_block * inner_block) @ '']  __attribute__((aligned(64)))'',
           ''size_t nblocks = n / '' @ fmt_d inner_block,
           ''nblocks += (n % '' @ fmt_d inner_block @ '') ? 1 : 0'',
           ''size_t mblocks = m / '' @ fmt_d inner_block,
           ''mblocks += (m % '' @ fmt_d inner_block @ '') ? 1 : 0'',
           ''const size_t nstart = nb * '' @ fmt_d inner_block,
           ''size_t nremain = ((nstart + '' @ fmt_d inner_block @ '') > n) ? (n - nstart) : ''
             @ fmt_d inner_block,
           ''const size_t mstart = mb * '' @ fmt_d inner_block,
           ''size_t mremain = ((mstart + '' @ fmt_d inner_block @ '') > m) ? (m - mstart) : ''
             @ fmt_d inner_block,
           ''const size_t start = (nstart + l) * m + mstart'',
           ''tmp[k * '' @ fmt_d inner_block @ '' + l] = input[start + k]'',
           ''const size_t start = (mstart + k) * n + nstart'',
           ''output[start + l] = tmp[k * '' @ fmt_d inner_block @ '' + l]'']
    \<and> block_headers (fst (fast_transpose inner_block))
        = [snd (fast_transpose inner_block),
           ''for (size_t nb = 0; nb < nblocks; nb++)'',
           ''for (size_t mb = 0; mb < mblocks; mb++)'',
           ''for (size_t l = 0; l < nremain; l++)'',
           ''for (size_t k = 0; k < mremain; k++)'',
           ''for (size_t k = 0; k < mremain; k++)'',
           ''for (size_t l = 0; l < nremain; l++)'']"
proof -
  define t :: size_t where "t = word_of_int inner_block"
  define nstart where "nstart = tile_start t nb"
  define mstart where "mstart = tile_start t mb"
  define nremain where "nremain = remain t n nstart"
  define mremain where "mremain = remain t m mstart"
  have T: "unat t = nat inner_block"
    unfolding t_def using assms(1) by (rule tile_ok_word(1))
  have "0 < unat t"
    using tile_ok_word(4) [OF assms(1)] T by simp
  then have nz: "t \<noteq> 0"
    by (simp add: unat_gt_0)
  have sq8: "8 * (unat t * unat t) < 2 ^ 64"
    using tile_ok_word(3) [OF assms(1)] T by simp
  then have sq: "unat t * unat t < 2 ^ 64"
    by arith
  have len: "nat (inner_block * inner_block) = unat t * unat t"
    using tile_ok_word(2) [OF assms(1)] T by simp
  have nb: "unat nb < tiles (unat t) (unat n)"
    using assms(3) unat_blocks [OF nz, of n] by (simp add: word_less_nat_alt t_def)
  have mb: "unat mb < tiles (unat t) (unat m)"
    using assms(4) unat_blocks [OF nz, of m] by (simp add: word_less_nat_alt t_def)
  have ns: "unat nstart = unat nb * unat t" and ns_less: "unat nb * unat t < unat n"
    using tile_bounds(1,2) [OF nz nb] by (simp_all add: nstart_def)
  have ms: "unat mstart = unat mb * unat t" and ms_less: "unat mb * unat t < unat m"
    using tile_bounds(1,2) [OF nz mb] by (simp_all add: mstart_def)
  have N: "0 < unat n" and M: "0 < unat m"
    using ns_less ms_less by simp_all
  have mat: "matrix_ok m n"
    using assms(2) by (simp add: matrix_ok_def mult.commute)
  have NT: "unat n + unat t < 2 ^ 64" and NM: "unat n * unat m < 2 ^ 64"
    using assms(2) M sq8 by (rule matrix_ok_extent)+
  have MT: "unat m + unat t < 2 ^ 64"
    using mat N sq8 by (rule matrix_ok_extent(1))
  have nr: "unat nremain = min (unat t) (unat n - unat nstart)"
    using tile_extent [OF nz nb NT] ns by (simp add: nremain_def nstart_def)
  have mr: "unat mremain = min (unat t) (unat m - unat mstart)"
    using tile_extent [OF nz mb MT] ms by (simp add: mremain_def mstart_def)
  have nr_le: "unat nremain \<le> unat t" and mr_le: "unat mremain \<le> unat t"
    using nr mr by simp_all
  from gather_run [OF sq len [symmetric, THEN sym] nr_le mr_le, of m input nstart mstart s]
  obtain s' where run: "gather (nat (inner_block * inner_block)) t m input
        nstart nremain mstart mremain s = Inr s'"
    and keeps: "out s' = out s"
    and holds: "\<And>l k. l < unat nremain \<Longrightarrow> k < unat mremain \<Longrightarrow>
        tmp s' (of_nat k * t + of_nat l) = input ((nstart + of_nat l) * m + mstart + of_nat k)"
    by blast
  have cell: "tmp s' (k * t + l) = input ((nstart + l) * m + mstart + k)
      \<and> unat ((nstart + l) * m + mstart + k)
          = (unat nstart + unat l) * unat m + (unat mstart + unat k)"
    if l: "l < nremain" and k: "k < mremain" for l k
  proof -
    have l': "unat l < unat nremain" and k': "unat k < unat mremain"
      using l k by (simp_all add: word_less_nat_alt)
    have i: "unat nstart + unat l < unat n"
      using l' nr ns_less ns by arith
    have j: "unat mstart + unat k < unat m"
      using k' mr ms_less ms by arith
    have "(unat nstart + unat l) * unat m + (unat mstart + unat k) < unat m * unat n"
      using j i by (rule cell_below)
    then have "(unat nstart + unat l) * unat m + (unat mstart + unat k) < 2 ^ 64"
      using NM by (simp add: mult.commute)
    moreover have "(nstart + l) * m + mstart + k
        = of_nat ((unat nstart + unat l) * unat m + (unat mstart + unat k))"
      by simp
    ultimately have "unat ((nstart + l) * m + mstart + k)
        = (unat nstart + unat l) * unat m + (unat mstart + unat k)"
      by (intro of_nat_inverse) simp_all
    with holds [OF l' k'] show ?thesis
      by simp
  qed
  have line: "filter (starts_with ''tmp['') (written (fst (fast_transpose inner_block)))
        = [''tmp[k * '' @ fmt_d inner_block @ '' + l] = input[start + k]'']"
    by (simp add: fast_transpose_def Let_def)
  have fast_lines: "filter (\<lambda>l. \<not> is_comment l) (written (fst (fast_transpose inner_block)))
        = [''double tmp['' @ fmt_d (inner_block * inner_block) @ '']  __attribute__((aligned(64)))'',
           ''size_t nblocks = n / '' @ fmt_d inner_block,
           ''nblocks += (n % '' @ fmt_d inner_block @ '') ? 1 : 0'',
           ''size_t mblocks = m / '' @ fmt_d inner_block,
           ''mblocks += (m % '' @ fmt_d inner_block @ '') ? 1 : 0'',
           ''const size_t nstart = nb * '' @ fmt_d inner_block,
           ''size_t nremain = ((nstart + '' @ fmt_d inner_block @ '') > n) ? (n - nstart) : ''
             @ fmt_d inner_block,
           ''const size_t mstart = mb * '' @ fmt_d inner_block,
           ''size_t mremain = ((mstart + '' @ fmt_d inner_block @ '') > m) ? (m - mstart) : ''
             @ fmt_d inner_block,
           ''const size_t start = (nstart + l) * m + mstart'',
           ''tmp[k * '' @ fmt_d inner_block @ '' + l] = input[start + k]'',
           ''const size_t start = (mstart + k) * n + nstart'',
           ''output[start + l] = tmp[k * '' @ fmt_d inner_block @ '' + l]'']"
    by (simp add: fast_transpose_def Let_def is_comment_def)
  have fast_heads: "block_headers (fst (fast_transpose inner_block))
        = [snd (fast_transpose inner_block),
           ''for (size_t nb = 0; nb < nblocks; nb++)'',
           ''for (size_t mb = 0; mb < mblocks; mb++)'',
           ''for (size_t l = 0; l < nremain; l++)'',
           ''for (size_t k = 0; k < mremain; k++)'',
           ''for (size_t k = 0; k < mremain; k++)'',
           ''for (size_t l = 0; l < nremain; l++)'']"
    by (simp add: fast_transpose_def Let_def)
  from ns ms nr mr run keeps cell T
  have tile: "(let t = word_of_int inner_block;
              nstart = tile_start t nb; nremain = remain t n nstart;
              mstart = tile_start t mb; mremain = remain t m mstart
          in unat nstart = unat nb * nat inner_block
           \<and> unat mstart = unat mb * nat inner_block
           \<and> unat nremain = min (nat inner_block) (unat n - unat nstart)
           \<and> unat mremain = min (nat inner_block) (unat m - unat mstart)
           \<and> (\<exists>s'. gather (nat (inner_block * inner_block)) t m input
                      nstart nremain mstart mremain s = Inr s'
                \<and> out s' = out s
                \<and> (\<forall>l k. l < nremain \<longrightarrow> k < mremain \<longrightarrow>
                      tmp s' (k * t + l) = input ((nstart + l) * m + mstart + k)
                    \<and> unat ((nstart + l) * m + mstart + k)
                        = (unat nstart + unat l) * unat m + (unat mstart + unat k))))"
    unfolding Let_def t_def [symmetric] nstart_def [symmetric] mstart_def [symmetric]
      nremain_def [symmetric] mremain_def [symmetric]
    by simp
  from tile line fast_lines fast_heads show ?thesis
    by (intro conjI)
qed

theorem gather_pretransposed_witness:
  "tile_ok 2 \<and> matrix_ok 3 2
   \<and> (1 :: size_t) < blocks (word_of_int 2) 3 \<and> (0 :: size_t) < blocks (word_of_int 2) 2
   \<and> unat (tile_start (word_of_int 2) (1 :: size_t)) = 2
   \<and> unat (remain (word_of_int 2) (3 :: size_t) (tile_start (word_of_int 2) 1)) = 1
   \<and> unat (remain (word_of_int 2) (2 :: size_t) (tile_start (word_of_int 2) 0)) = 2"
proof -
  have h1: "tile_ok 2"
    by (simp add: tile_ok_def addressable_def)
  have h2: "matrix_ok 3 2"
    by (simp add: matrix_ok_def addressable_def)
  have h3: "(1 :: size_t) < blocks (word_of_int 2) 3"
    by (simp add: blocks_def)
  have h4: "(0 :: size_t) < blocks (word_of_int 2) 2"
    by (simp add: blocks_def)
  from gather_pretransposed [OF h1 h2 h3 h4, of "\<lambda>i. unat i"
      "\<lparr>tmp = \<lambda>i. 0, out = \<lparr>cells = \<lambda>i. 0, stores = []\<rparr>\<rparr>"]
  have "unat (tile_start (word_of_int 2) (1 :: size_t)) = 2
   \<and> unat (remain (word_of_int 2) (3 :: size_t) (tile_start (word_of_int 2) 1)) = 1
   \<and> unat (remain (word_of_int 2) (2 :: size_t) (tile_start (word_of_int 2) 0)) = 2"
    by (simp add: Let_def)
  with h1 h2 h3 h4 show ?thesis
    by blast
qed

text \<open>
  C1. The routine emitted by \<^verbatim>\<open>fast_transpose\<close> for a tile size \<open>inner_block \<ge> 1\<close>
  and the routine emitted by \<^verbatim>\<open>naive_transpose\<close>, run on the same \<open>n\<close> by \<open>m\<close>
  row-major input and the same output memory, leave the output memory with the same
  contents, cell by cell: the blocked routine ends without fault, and every cell of its
  output equals the cell the naive double loop leaves there. When \<open>n = 0\<close> or \<open>m = 0\<close>
  neither routine performs a store. The two routines are the ones whose statements and
  loop headers the generators emit.
\<close>

theorem fast_transpose_is_naive_transpose:
  fixes n m :: size_t and tmp0 :: "'a buffer"
  assumes "tile_ok inner_block" and "matrix_ok n m"
  shows "(\<exists>s'. gg_fast_transpose inner_block n m input output tmp0 = Inr s'
        \<and> cells (out s') = cells (gg_naive_transpose n m input output)
        \<and> (n = 0 \<or> m = 0 \<longrightarrow>
             stores (out s') = stores output
           \<and> stores (gg_naive_transpose n m input output) = stores output))
    \<and> filter (\<lambda>l. \<not> is_comment l) (written (fst (fast_transpose inner_block)))
        = [''double tmp['' @ fmt_d (inner_block * inner_block) @ '']  __attribute__((aligned(64)))'',
           ''size_t nblocks = n / '' @ fmt_d inner_block,
           ''nblocks += (n % '' @ fmt_d inner_block @ '') ? 1 : 0'',
           ''size_t mblocks = m / '' @ fmt_d inner_block,
           ''mblocks += (m % '' @ fmt_d inner_block @ '') ? 1 : 0'',
           ''const size_t nstart = nb * '' @ fmt_d inner_block,
           ''size_t nremain = ((nstart + '' @ fmt_d inner_block @ '') > n) ? (n - nstart) : ''
             @ fmt_d inner_block,
           ''const size_t mstart = mb * '' @ fmt_d inner_block,
           ''size_t mremain = ((mstart + '' @ fmt_d inner_block @ '') > m) ? (m - mstart) : ''
             @ fmt_d inner_block,
           ''const size_t start = (nstart + l) * m + mstart'',
           ''tmp[k * '' @ fmt_d inner_block @ '' + l] = input[start + k]'',
           ''const size_t start = (mstart + k) * n + nstart'',
           ''output[start + l] = tmp[k * '' @ fmt_d inner_block @ '' + l]'']
    \<and> block_headers (fst (fast_transpose inner_block))
        = [snd (fast_transpose inner_block),
           ''for (size_t nb = 0; nb < nblocks; nb++)'',
           ''for (size_t mb = 0; mb < mblocks; mb++)'',
           ''for (size_t l = 0; l < nremain; l++)'',
           ''for (size_t k = 0; k < mremain; k++)'',
           ''for (size_t k = 0; k < mremain; k++)'',
           ''for (size_t l = 0; l < nremain; l++)'']
    \<and> written (fst naive_transpose) = [''output[j * n + i] = input[i * m + j]'']
    \<and> block_headers (fst naive_transpose)
        = [snd naive_transpose, ''for (size_t i = 0; i < n; i++)'',
           ''for (size_t j = 0; j < m; j++)'']"
proof -
  have NM: "unat n * unat m < 2 ^ 64"
    using assms(2) unfolding matrix_ok_def addressable_def by arith
  from fast_transpose_cells [OF assms]
  obtain s' where run: "gg_fast_transpose inner_block n m input output tmp0 = Inr s'"
    and fast: "cells (out s')
        = written_cells (unat n) (unat m) input (\<lambda>i j. True) (cells output)"
    and empty: "n = 0 \<or> m = 0 \<longrightarrow> out s' = output"
    by blast
  have naive: "cells (gg_naive_transpose n m input output)
      = written_cells (unat n) (unat m) input (\<lambda>i j. True) (cells output)"
    using NM by (rule naive_transpose_cells)
  have same: "cells (out s') = cells (gg_naive_transpose n m input output)"
    by (simp only: fast naive)
  have none: "n = 0 \<or> m = 0 \<longrightarrow>
      stores (out s') = stores output
      \<and> stores (gg_naive_transpose n m input output) = stores output"
  proof
    assume zero: "n = 0 \<or> m = 0"
    then have "gg_naive_transpose n m input output = output"
      by (rule naive_transpose_empty)
    moreover from zero empty have "out s' = output"
      by simp
    ultimately show "stores (out s') = stores output
        \<and> stores (gg_naive_transpose n m input output) = stores output"
      by simp
  qed
  have runs: "\<exists>s'. gg_fast_transpose inner_block n m input output tmp0 = Inr s'
        \<and> cells (out s') = cells (gg_naive_transpose n m input output)
        \<and> (n = 0 \<or> m = 0 \<longrightarrow>
             stores (out s') = stores output
           \<and> stores (gg_naive_transpose n m input output) = stores output)"
    using run same none by blast
  have fast_lines: "filter (\<lambda>l. \<not> is_comment l) (written (fst (fast_transpose inner_block)))
        = [''double tmp['' @ fmt_d (inner_block * inner_block) @ '']  __attribute__((aligned(64)))'',
           ''size_t nblocks = n / '' @ fmt_d inner_block,
           ''nblocks += (n % '' @ fmt_d inner_block @ '') ? 1 : 0'',
           ''size_t mblocks = m / '' @ fmt_d inner_block,
           ''mblocks += (m % '' @ fmt_d inner_block @ '') ? 1 : 0'',
           ''const size_t nstart = nb * '' @ fmt_d inner_block,
           ''size_t nremain = ((nstart + '' @ fmt_d inner_block @ '') > n) ? (n - nstart) : ''
             @ fmt_d inner_block,
           ''const size_t mstart = mb * '' @ fmt_d inner_block,
           ''size_t mremain = ((mstart + '' @ fmt_d inner_block @ '') > m) ? (m - mstart) : ''
             @ fmt_d inner_block,
           ''const size_t start = (nstart + l) * m + mstart'',
           ''tmp[k * '' @ fmt_d inner_block @ '' + l] = input[start + k]'',
           ''const size_t start = (mstart + k) * n + nstart'',
           ''output[start + l] = tmp[k * '' @ fmt_d inner_block @ '' + l]'']"
    by (simp add: fast_transpose_def Let_def is_comment_def)
  have fast_heads: "block_headers (fst (fast_transpose inner_block))
        = [snd (fast_transpose inner_block),
           ''for (size_t nb = 0; nb < nblocks; nb++)'',
           ''for (size_t mb = 0; mb < mblocks; mb++)'',
           ''for (size_t l = 0; l < nremain; l++)'',
           ''for (size_t k = 0; k < mremain; k++)'',
           ''for (size_t k = 0; k < mremain; k++)'',
           ''for (size_t l = 0; l < nremain; l++)'']"
    by (simp add: fast_transpose_def Let_def)
  have naive_lines: "written (fst naive_transpose) = [''output[j * n + i] = input[i * m + j]'']"
    by (simp add: naive_transpose_def Let_def)
  have naive_heads: "block_headers (fst naive_transpose)
        = [snd naive_transpose, ''for (size_t i = 0; i < n; i++)'',
           ''for (size_t j = 0; j < m; j++)'']"
    by (simp add: naive_transpose_def Let_def)
  from runs fast_lines fast_heads naive_lines naive_heads show ?thesis
    by (intro conjI)
qed

theorem fast_transpose_is_naive_transpose_witness:
  "tile_ok 2 \<and> matrix_ok 3 2 \<and> matrix_ok 0 2
   \<and> (\<exists>s'. gg_fast_transpose 2 3 2 (\<lambda>i. unat i) \<lparr>cells = \<lambda>i. 0, stores = []\<rparr> (\<lambda>i. 0) = Inr s'
        \<and> cells (out s')
            = cells (gg_naive_transpose 3 2 (\<lambda>i. unat i) \<lparr>cells = \<lambda>i. 0, stores = []\<rparr>))
   \<and> (\<exists>s'. gg_fast_transpose 2 0 2 (\<lambda>i. unat i) \<lparr>cells = \<lambda>i. 0, stores = []\<rparr> (\<lambda>i. 0) = Inr s'
        \<and> stores (out s') = []
        \<and> stores (gg_naive_transpose 0 2 (\<lambda>i. unat i) \<lparr>cells = \<lambda>i. 0, stores = []\<rparr>) = [])"
proof -
  have h1: "tile_ok 2"
    by (simp add: tile_ok_def addressable_def)
  have h2: "matrix_ok 3 2"
    by (simp add: matrix_ok_def addressable_def)
  have h3: "matrix_ok 0 2"
    by (simp add: matrix_ok_def addressable_def)
  from fast_transpose_is_naive_transpose [OF h1 h2, of "\<lambda>i. unat i"
      "\<lparr>cells = \<lambda>i. 0, stores = []\<rparr>" "\<lambda>i. 0", THEN conjunct1]
  have full: "\<exists>s'. gg_fast_transpose 2 3 2 (\<lambda>i. unat i) \<lparr>cells = \<lambda>i. 0, stores = []\<rparr> (\<lambda>i. 0) = Inr s'
        \<and> cells (out s')
            = cells (gg_naive_transpose 3 2 (\<lambda>i. unat i) \<lparr>cells = \<lambda>i. 0, stores = []\<rparr>)"
    by blast
  from fast_transpose_is_naive_transpose [OF h1 h3, of "\<lambda>i. unat i"
      "\<lparr>cells = \<lambda>i. 0, stores = []\<rparr>" "\<lambda>i. 0", THEN conjunct1]
  have none: "\<exists>s'. gg_fast_transpose 2 0 2 (\<lambda>i. unat i) \<lparr>cells = \<lambda>i. 0, stores = []\<rparr> (\<lambda>i. 0) = Inr s'
        \<and> stores (out s') = []
        \<and> stores (gg_naive_transpose 0 2 (\<lambda>i. unat i) \<lparr>cells = \<lambda>i. 0, stores = []\<rparr>) = []"
    by auto
  from h1 h2 h3 full none show ?thesis
    by (intro conjI)
qed

end
